theory Spec2Isabelle
  imports
    Complex_Main
    "HOL-Library.Char_ord"
    "HOL-Library.List_Lexorder"
    "HOL-Library.Product_Lexorder"
    "HOL-Library.Multiset"
begin

section \<open>Python strings\<close>

text \<open>
  A Python \<open>str\<close> is modelled as a \<open>string\<close>; a \<open>char\<close> stands for the Unicode code
  point of the same number, so the model covers the strings whose code points are below
  256. Comparison of strings is Python's: lexicographic by code point.

  \<open>str.strip()\<close> removes the characters for which \<open>str.isspace()\<close> holds; below 256 these
  are the twelve code points listed in \<open>whitespace\<close>.
\<close>

datatype py_error = ValueError | IndexError | KeyError

definition whitespace :: "char list" where
  "whitespace = [CHR 0x09, CHR 0x0A, CHR 0x0B, CHR 0x0C, CHR 0x0D, CHR 0x1C, CHR 0x1D,
                 CHR 0x1E, CHR 0x1F, CHR 0x20, CHR 0x85, CHR 0xA0]"

definition isspace :: "char \<Rightarrow> bool" where
  "isspace c = (c \<in> set whitespace)"

definition lstrip :: "string \<Rightarrow> string" where
  "lstrip s = dropWhile isspace s"

definition strip :: "string \<Rightarrow> string" where
  "strip s = rev (dropWhile isspace (rev (lstrip s)))"

text \<open>\<open>s.rstrip(chars)\<close> removes every trailing character that occurs in \<open>chars\<close>.\<close>

definition rstrip :: "string \<Rightarrow> string \<Rightarrow> string" where
  "rstrip chars s = rev (dropWhile (\<lambda>c. c \<in> set chars) (rev s))"

text \<open>
  \<open>str.isdigit()\<close> holds for a non-empty string all of whose characters have the Unicode
  property Numeric_Type Digit or Decimal. Below 256 these are the ten decimal digits and
  the superscripts U+00B2, U+00B3 and U+00B9. \<open>int()\<close> accepts the decimal digits only and
  raises \<open>ValueError\<close> on a superscript.
\<close>

definition decimal_digits :: "char list" where
  "decimal_digits = ''0123456789''"

definition superscript_digits :: "char list" where
  "superscript_digits = [CHR 0xB2, CHR 0xB3, CHR 0xB9]"

definition isdecimal_char :: "char \<Rightarrow> bool" where
  "isdecimal_char c = (c \<in> set decimal_digits)"

definition isdigit_char :: "char \<Rightarrow> bool" where
  "isdigit_char c = (c \<in> set decimal_digits \<or> c \<in> set superscript_digits)"

definition isdigit :: "string \<Rightarrow> bool" where
  "isdigit s = (s \<noteq> [] \<and> list_all isdigit_char s)"

definition digit_value :: "char \<Rightarrow> nat" where
  "digit_value c = length (takeWhile (\<lambda>d. d \<noteq> c) decimal_digits)"

definition digit_char :: "nat \<Rightarrow> char" where
  "digit_char n = decimal_digits ! n"

definition digits_value :: "string \<Rightarrow> nat" where
  "digits_value s = foldl (\<lambda>a c. 10 * a + digit_value c) 0 s"

text \<open>
  \<open>int(s)\<close> for a string that passed \<open>isdigit()\<close>: such a string has no sign, blank or
  underscore, so the only failure left is a digit that is not a decimal digit.
\<close>

definition int_of_digits :: "string \<Rightarrow> py_error + int" where
  "int_of_digits s =
     (if s \<noteq> [] \<and> list_all isdecimal_char s then Inr (int (digits_value s))
      else Inl ValueError)"

fun str_nat :: "nat \<Rightarrow> string" where
  "str_nat n =
     (if n < 10 then [digit_char n] else str_nat (n div 10) @ [digit_char (n mod 10)])"

definition str_int :: "int \<Rightarrow> string" where
  "str_int i = (if i < 0 then CHR ''-'' # str_nat (nat (- i)) else str_nat (nat i))"

text \<open>
  \<open>str.upper()\<close>. Below 256 the lower-case letters are a-z, U+00E0..U+00FE without the
  division sign U+00F7, the sharp s U+00DF (which becomes \<open>SS\<close>), and the two letters
  U+00B5 and U+00FF whose capitals lie above 255; these two are kept as they are, which
  no test against an ASCII keyword can observe.
\<close>

definition upper_char :: "char \<Rightarrow> string" where
  "upper_char c =
     (let n = (of_char c :: nat) in
      if 97 \<le> n \<and> n \<le> 122 then [char_of (n - 32)]
      else if n = 223 then ''SS''
      else if 224 \<le> n \<and> n \<le> 254 \<and> n \<noteq> 247 then [char_of (n - 32)]
      else [c])"

definition upper :: "string \<Rightarrow> string" where
  "upper s = concat (map upper_char s)"

text \<open>\<open>s.startswith(p)\<close> and the substring test \<open>kw in s\<close>.\<close>

fun startswith :: "string \<Rightarrow> string \<Rightarrow> bool" where
  "startswith s [] = True"
| "startswith [] (p # ps) = False"
| "startswith (c # cs) (p # ps) = (c = p \<and> startswith cs ps)"

fun contains :: "string \<Rightarrow> string \<Rightarrow> bool" where
  "contains [] kw = (kw = [])"
| "contains (c # cs) kw = (startswith (c # cs) kw \<or> contains cs kw)"

section \<open>Agenda-number normalisation (extract_dallas.py)\<close>

text \<open>
  \<^verbatim>\<open>
  def normalize_agenda_number(raw: str) -> str:
      if not raw:
          return ''
      cleaned = raw.strip().rstrip('.')
      if cleaned.isdigit():
          cleaned = str(int(cleaned))
      return cleaned
  \<close>
\<close>

definition normalize_agenda_number :: "string \<Rightarrow> py_error + string" where
  "normalize_agenda_number raw =
     (if raw = [] then Inr []
      else
        let cleaned = rstrip ''.'' (strip raw) in
        if isdigit cleaned then
          (case int_of_digits cleaned of
             Inl e \<Rightarrow> Inl e
           | Inr n \<Rightarrow> Inr (str_int n))
        else Inr cleaned)"


definition strip_leading_zeros :: "string \<Rightarrow> string" where
  "strip_leading_zeros s =
     (let t = dropWhile (\<lambda>c. c = CHR ''0'') s in if t = [] then ''0'' else t)"


text \<open>The same rule with every trailing period stripped, as the code does.\<close>

definition normalize_periods :: "string \<Rightarrow> string" where
  "normalize_periods raw =
     (let cleaned = rstrip ''.'' (strip raw) in
      if cleaned \<noteq> [] \<and> list_all isdecimal_char cleaned then strip_leading_zeros cleaned
      else cleaned)"

section \<open>Names and vote tokens (build_site.py)\<close>

text \<open>
  \<open>s.split()\<close> cuts a string at every run of white space and drops the empty pieces;
  \<open>sep.join(xs)\<close> puts the pieces together again.
\<close>

fun split_from :: "string \<Rightarrow> string \<Rightarrow> string list" where
  "split_from w [] = (if w = [] then [] else [rev w])"
| "split_from w (c # cs) =
     (if isspace c then (if w = [] then split_from [] cs else rev w # split_from [] cs)
      else split_from (c # w) cs)"

definition split :: "string \<Rightarrow> string list" where
  "split s = split_from [] s"

fun join :: "string \<Rightarrow> string list \<Rightarrow> string" where
  "join sep [] = []"
| "join sep [x] = x"
| "join sep (x # y # ys) = x @ sep @ join sep (y # ys)"

text \<open>\<open>d.get(k, default)\<close> on a dictionary given as an association list.\<close>

definition dict_get :: "('k \<times> 'v) list \<Rightarrow> 'k \<Rightarrow> 'v \<Rightarrow> 'v" where
  "dict_get d k dflt = (case map_of d k of None \<Rightarrow> dflt | Some v \<Rightarrow> v)"

text \<open>
  \<open>d[k] = v\<close>: a key that is present keeps its place and takes the new value, a new key
  goes to the end (a \<open>dict\<close> iterates in insertion order).
\<close>

fun dict_set :: "('k \<times> 'v) list \<Rightarrow> 'k \<Rightarrow> 'v \<Rightarrow> ('k \<times> 'v) list" where
  "dict_set [] k v = [(k, v)]"
| "dict_set ((k', v') # d) k v = (if k' = k then (k, v) # d else (k', v') # dict_set d k v)"

definition NAME_ALIASES :: "(string \<times> string) list" where
  "NAME_ALIASES =
    [(''Adam  Bazaldua'', ''Adam Bazaldua''),
     (''Adam  Medrano'', ''Adam Medrano''),
     (''B. Adam McGough'', ''Adam McGough''),
     (''Carolyn Arnold'', ''Carolyn King Arnold''),
     (''Carolyn King  Arnold'', ''Carolyn King Arnold''),
     (''Gay Donnel Willis'', ''Gay Donnell Willis''),
     (''Jaynie Schultz'', ''Jaynie Shultz''),
     (''Jennifer S.  Gates'', ''Jennifer S. Gates''),
     (''Jesse  Moreno'', ''Jesse Moreno''),
     (''Tennel Atkins'', ''Tennell Atkins''),
     (''Tennell  Atkins'', ''Tennell Atkins''),
     (''Zarin D. Gracey'', ''Zarin Gracey'')]"

definition normalize_name :: "string \<Rightarrow> string" where
  "normalize_name name =
     (let name = strip name;
          name = join '' '' (split name)
      in dict_get NAME_ALIASES name name)"

definition VOTE_MAP :: "(string \<times> string) list" where
  "VOTE_MAP =
    [(''YES'', ''AYE''),
     (''NO'', ''NAY''),
     (''AWVT'', ''ABSENT''),
     (''ABSNT'', ''ABSENT''),
     (''ABSNT_CB'', ''ABSENT''),
     (''ABST'', ''ABSTAIN'')]"

text \<open>
  \<^verbatim>\<open>
  def map_vote(raw_vote):
      v = raw_vote.strip().upper()
      if not v or v == "N/A":
          return None
      return VOTE_MAP.get(v, None)
  \<close>
\<close>

definition map_vote :: "string \<Rightarrow> string option" where
  "map_vote raw_vote =
     (let v = upper (strip raw_vote) in
      if v = [] \<or> v = ''N/A'' then None else map_of VOTE_MAP v)"

section \<open>Outcome derivation (build_site.py)\<close>

text \<open>
  The first argument of \<open>derive_outcome\<close> is whatever the caller has for the flag: the
  loader passes the CSV cell, the specification's examples pass \<open>1\<close>, \<open>0\<close> and \<open>None\<close>.
  \<open>str()\<close> turns it into text. The two text arguments may be \<open>None\<close>, which
  \<open>(x or "")\<close> turns into the empty string.
\<close>

datatype pyval = PyNone | PyBool bool | PyInt int | PyStr string

fun py_str :: "pyval \<Rightarrow> string" where
  "py_str PyNone = ''None''"
| "py_str (PyBool b) = (if b then ''True'' else ''False'')"
| "py_str (PyInt i) = str_int i"
| "py_str (PyStr s) = s"

fun or_empty :: "string option \<Rightarrow> string" where
  "or_empty None = []"
| "or_empty (Some s) = s"

definition derive_outcome :: "pyval \<Rightarrow> string option \<Rightarrow> string option \<Rightarrow> string" where
  "derive_outcome passed_val final_action matter_status =
     (let p = strip (py_str passed_val);
          fa = upper (strip (or_empty final_action));
          ms = upper (strip (or_empty matter_status))
      in
      if p = ''1'' then ''PASS''
      else if p = ''0'' then
        (if contains fa ''DENIED'' then ''FAIL''
         else if contains fa ''DEFERRED'' then ''CONTINUED''
         else if contains fa ''DELETED'' then ''WITHDRAWN''
         else if contains fa ''DID NOT PASS'' then ''FAIL''
         else ''FAIL'')
      else if list_ex (contains fa)
           [''APPROVED'', ''ADOPTED'', ''PASSED'', ''CONFIRMED'', ''ACCEPTED'', ''GRANTED'',
            ''SUSTAINED'', ''RATIFIED''] then ''PASS''
      else if contains fa ''AMENDED'' then ''PASS''
      else if list_ex (contains fa) [''DENIED'', ''REJECTED'', ''DEFEATED'', ''FAILED'']
        then ''FAIL''
      else if contains fa ''DEFERRED'' \<or> contains fa ''HELD'' then ''CONTINUED''
      else if contains fa ''DELETED'' \<or> contains fa ''WITHDRAWN'' then ''WITHDRAWN''
      else if contains fa ''REMANDED'' then ''CONTINUED''
      else if contains fa ''TABLED'' then ''TABLED''
      else if contains ms ''APPROVED'' then ''PASS''
      else if contains ms ''DEFERRED'' then ''CONTINUED''
      else ''PASS'')"

text \<open>
  The classifier as the specification words it, on the flag read from the first
  argument and on the two texts in upper case. Rule 1 tests DENIED and DID NOT PASS
  first; rules 2 to 4 follow.
\<close>

definition passed_flag :: "pyval \<Rightarrow> bool option" where
  "passed_flag passed_val =
     (let p = strip (py_str passed_val) in
      if p = ''1'' then Some True else if p = ''0'' then Some False else None)"

definition spec_approval_keywords :: "string list" where
  "spec_approval_keywords =
    [''APPROVED'', ''ADOPTED'', ''PASSED'', ''CONFIRMED'', ''ACCEPTED'', ''GRANTED'',
     ''SUSTAINED'', ''RATIFIED'', ''AMENDED'']"

definition spec_denial_keywords :: "string list" where
  "spec_denial_keywords = [''DENIED'', ''REJECTED'', ''DEFEATED'', ''FAILED'']"

definition classify_text :: "string \<Rightarrow> string \<Rightarrow> string" where
  "classify_text fa ms =
     (if list_ex (contains fa) spec_approval_keywords then ''PASS''
      else if list_ex (contains fa) spec_denial_keywords then ''FAIL''
      else if list_ex (contains fa) [''DEFERRED'', ''HELD''] then ''CONTINUED''
      else if list_ex (contains fa) [''DELETED'', ''WITHDRAWN''] then ''WITHDRAWN''
      else if contains fa ''REMANDED'' then ''CONTINUED''
      else if contains fa ''TABLED'' then ''TABLED''
      else if contains ms ''APPROVED'' then ''PASS''
      else if contains ms ''DEFERRED'' then ''CONTINUED''
      else ''PASS'')"

definition classify_spec :: "bool option \<Rightarrow> string \<Rightarrow> string \<Rightarrow> string" where
  "classify_spec flag fa ms =
     (case flag of
        Some True \<Rightarrow> ''PASS''
      | Some False \<Rightarrow>
          (if contains fa ''DENIED'' \<or> contains fa ''DID NOT PASS'' then ''FAIL''
           else if contains fa ''DEFERRED'' then ''CONTINUED''
           else if contains fa ''DELETED'' then ''WITHDRAWN''
           else ''FAIL'')
      | None \<Rightarrow> classify_text fa ms)"

text \<open>
  The same classifier with rule 1 in the order of the code: DENIED, then DEFERRED, then
  DELETED, and FAIL for everything else.
\<close>

definition classify_denied_first :: "bool option \<Rightarrow> string \<Rightarrow> string \<Rightarrow> string" where
  "classify_denied_first flag fa ms =
     (case flag of
        Some True \<Rightarrow> ''PASS''
      | Some False \<Rightarrow>
          (if contains fa ''DENIED'' then ''FAIL''
           else if contains fa ''DEFERRED'' then ''CONTINUED''
           else if contains fa ''DELETED'' then ''WITHDRAWN''
           else ''FAIL'')
      | None \<Rightarrow> classify_text fa ms)"

section \<open>Correlation of the two sources (extract_dallas.py)\<close>

text \<open>
  A vote record of the open-data portal is a JSON object whose values are strings; the
  code reads it with \<open>r.get(key, '')\<close> only, so an absent key and an empty string are the
  same to it.
\<close>

type_synonym pydict = "(string \<times> string) list"

definition get :: "pydict \<Rightarrow> string \<Rightarrow> string" where
  "get r k = dict_get r k []"

text \<open>
  An agenda item is the dictionary that phase 1 builds and phase 3 fills in. The record
  names the entries that phase 3 reads or writes; \<open>rest\<close> holds the other entries
  (meeting, matter and link columns), which phase 3 only sets when it makes a new item.
  \<open>agenda_sequence\<close> is an integer or the empty string (\<open>None\<close> here), \<open>passed\<close> is
  \<open>1\<close>, \<open>0\<close> or \<open>None\<close>.
\<close>

record item =
  event_date :: string
  agenda_number :: string
  agenda_sequence :: "int option"
  title :: string
  passed :: "int option"
  vote_type :: string
  socrata_item_number :: string
  socrata_agenda_info :: string
  socrata_final_action :: string
  item_votes :: "(string \<times> string) list"
  rest :: "(string \<times> pyval) list"

type_synonym key = "string \<times> string"

definition APPROVAL_KEYWORDS :: "string list" where
  "APPROVAL_KEYWORDS =
    [''APPROVED'', ''ADOPTED'', ''PASSED'', ''CONFIRMED'', ''ACCEPTED'',
     ''GRANTED'', ''SUSTAINED'', ''RATIFIED'']"

definition DENIAL_KEYWORDS :: "string list" where
  "DENIAL_KEYWORDS = [''DENIED'', ''FAILED'', ''REJECTED'', ''DEFEATED'']"

definition derive_passed :: "string \<Rightarrow> int option" where
  "derive_passed final_action =
     (if final_action = [] then None
      else
        let upper = upper final_action in
        if list_ex (contains upper) APPROVAL_KEYWORDS then Some 1
        else if list_ex (contains upper) DENIAL_KEYWORDS then Some 0
        else if contains upper ''AMENDED'' then Some 1
        else None)"

text \<open>
  \<^verbatim>\<open>
  votes = {}
  for r in socrata_records:
      name = r.get('voter_name', '')
      vote_val = r.get('vote', '')
      if name:
          votes[name] = vote_val
  \<close>
\<close>

fun build_votes :: "pydict list \<Rightarrow> (string \<times> string) list \<Rightarrow> (string \<times> string) list" where
  "build_votes [] votes = votes"
| "build_votes (r # rs) votes =
     (let name = get r ''voter_name'';
          vote_val = get r ''vote''
      in if name \<noteq> [] then build_votes rs (dict_set votes name vote_val)
         else build_votes rs votes)"

text \<open>
  \<open>_merge_socrata_into_item\<close> changes the item in place; here it returns the changed
  item. The names it adds to \<open>self.all_members\<close> feed the header of the CSV file only and
  are not modelled.
\<close>

definition merge_socrata_into_item :: "item \<Rightarrow> pydict list \<Rightarrow> item" where
  "merge_socrata_into_item it socrata_records =
     (case socrata_records of
        [] \<Rightarrow> it
      | sample # _ \<Rightarrow>
          it\<lparr>socrata_item_number := get sample ''agenda_item_number'',
             socrata_agenda_info := get sample ''item_type'',
             socrata_final_action := get sample ''final_action_taken'',
             passed := derive_passed (get sample ''final_action_taken''),
             vote_type := ''Socrata Roll Call'',
             title := (if title it = [] then get sample ''agenda_item_description''
                       else title it),
             item_votes := build_votes socrata_records []\<rparr>)"

text \<open>
  The two look-up tables. \<open>socrata_by_key\<close> maps a key to the list of its records, in
  the order the keys first occur. \<open>legistar_by_key\<close> maps a key to an item of
  \<open>legistar_items\<close>; the dictionary holds the object itself, which the model renders as
  its position in the list.
\<close>

fun socrata_by_key ::
  "pydict list \<Rightarrow> (key \<times> pydict list) list \<Rightarrow> py_error + (key \<times> pydict list) list" where
  "socrata_by_key [] d = Inr d"
| "socrata_by_key (r # rs) d =
     (let date_str = take 10 (get r ''date'') in
      case normalize_agenda_number (get r ''agenda_item_number'') of
        Inl e \<Rightarrow> Inl e
      | Inr item_num \<Rightarrow>
          (let key = (date_str, item_num) in
           socrata_by_key rs (dict_set d key (dict_get d key [] @ [r]))))"

fun legistar_by_key ::
  "item list \<Rightarrow> nat \<Rightarrow> (key \<times> nat) list \<Rightarrow> py_error + (key \<times> nat) list" where
  "legistar_by_key [] i d = Inr d"
| "legistar_by_key (it # its) i d =
     (let date_str = event_date it;
          raw_num = agenda_number it
      in
      case normalize_agenda_number raw_num of
        Inl e \<Rightarrow> Inl e
      | Inr norm_num \<Rightarrow>
          if norm_num \<noteq> [] then legistar_by_key its (Suc i) (dict_set d (date_str, norm_num) i)
          else legistar_by_key its (Suc i) d)"

text \<open>
  The matching loop runs over the groups in dictionary order. A matched group is merged
  into the item that the index points to; the key of an unmatched group goes into the
  set \<open>unmatched_socrata_keys\<close>, held here as the list of its elements.
\<close>

fun match_groups ::
  "(key \<times> nat) list \<Rightarrow> (key \<times> pydict list) list \<Rightarrow> item list \<Rightarrow> key list \<Rightarrow>
     item list \<times> key list" where
  "match_groups idx [] items unmatched = (items, unmatched)"
| "match_groups idx ((key, records) # gs) items unmatched =
     (case map_of idx key of
        Some i \<Rightarrow>
          match_groups idx gs (items[i := merge_socrata_into_item (items ! i) records]) unmatched
      | None \<Rightarrow> match_groups idx gs items (unmatched @ [key]))"

text \<open>
  \<open>self\<close> contributes two optional tables, from a date to the minutes and to the video
  of that day; \<open>getattr(self, name, {})\<close> reads an absent table as empty.
\<close>

record workflow =
  minutes_links :: "(string \<times> string) list"
  swagit_videos :: "(string \<times> string) list"

definition new_item :: "workflow \<Rightarrow> key \<Rightarrow> pydict \<Rightarrow> item" where
  "new_item self key sample =
     (let date_str = fst key in
      \<lparr>event_date = date_str,
       agenda_number = get sample ''agenda_item_number'',
       agenda_sequence = None,
       title = get sample ''agenda_item_description'',
       passed = None,
       vote_type = [],
       socrata_item_number = [],
       socrata_agenda_info = [],
       socrata_final_action = [],
       item_votes = [],
       rest =
         [(''event_id'', PyStr []),
          (''event_time'', PyStr []),
          (''event_body'', PyStr ''City Council''),
          (''event_location'', PyStr []),
          (''event_item_id'', PyStr []),
          (''matter_file'', PyStr []),
          (''matter_type'', PyStr []),
          (''matter_status'', PyStr []),
          (''matter_id'', PyStr []),
          (''consent'', PyStr []),
          (''tally'', PyStr []),
          (''mover'', PyStr []),
          (''seconder'', PyStr []),
          (''roll_call_flag'', PyInt 0),
          (''matter_title'', PyStr []),
          (''matter_intro_date'', PyStr []),
          (''matter_enactment_number'', PyStr []),
          (''matter_requester'', PyStr []),
          (''matter_body_name'', PyStr []),
          (''agenda_link'', PyStr []),
          (''minutes_link'', PyStr (dict_get (minutes_links self) date_str [])),
          (''video_link'', PyStr (dict_get (swagit_videos self) date_str [])),
          (''attachment_links'', PyStr [])]\<rparr>)"

fun new_items ::
  "workflow \<Rightarrow> (key \<times> pydict list) list \<Rightarrow> key list \<Rightarrow> py_error + item list" where
  "new_items self groups [] = Inr []"
| "new_items self groups (key # keys) =
     (case map_of groups key of
        None \<Rightarrow> Inl KeyError
      | Some records \<Rightarrow>
          (case records of
             [] \<Rightarrow> Inl IndexError
           | sample # _ \<Rightarrow>
               (case new_items self groups keys of
                  Inl e \<Rightarrow> Inl e
                | Inr items \<Rightarrow>
                    Inr (merge_socrata_into_item (new_item self key sample) records # items))))"

text \<open>
  The sort key of the final list: date, then \<open>int(agenda_sequence or 0)\<close>, then the raw
  agenda number. \<open>list.sort\<close> is stable, as \<open>sort_key\<close> is.
\<close>

definition item_sort_key :: "item \<Rightarrow> string \<times> int \<times> string" where
  "item_sort_key x =
     (event_date x, (case agenda_sequence x of None \<Rightarrow> 0 | Some n \<Rightarrow> n), agenda_number x)"

text \<open>
  The first half of \<open>phase3_correlate\<close>: the two tables and the matching loop. It
  yields the groups, the list \<open>legistar_items\<close> after the merges and the keys of the
  unmatched groups.
\<close>

definition correlate_sources ::
  "item list \<Rightarrow> pydict list \<Rightarrow> py_error + (key \<times> pydict list) list \<times> item list \<times> key list" where
  "correlate_sources legistar_items socrata_records =
     (case socrata_by_key socrata_records [] of
        Inl e \<Rightarrow> Inl e
      | Inr groups \<Rightarrow>
          (case legistar_by_key legistar_items 0 [] of
             Inl e \<Rightarrow> Inl e
           | Inr idx \<Rightarrow>
               (let (items, unmatched_socrata_keys) = match_groups idx groups legistar_items []
                in Inr (groups, items, unmatched_socrata_keys))))"

text \<open>
  \<open>unmatched_socrata_keys\<close> is a hash set of pairs of strings: the order in which Python
  iterates it is not fixed by the program and changes from run to run. The parameter
  \<open>set_iter\<close> stands for that order: it turns the elements, listed in the order they were
  added, into the order of iteration. The code iterates \<open>sorted(unmatched_socrata_keys)\<close>.
\<close>

definition phase3_correlate_iter ::
  "(key list \<Rightarrow> key list) \<Rightarrow> workflow \<Rightarrow> item list \<Rightarrow> pydict list \<Rightarrow> py_error + item list" where
  "phase3_correlate_iter set_iter self legistar_items socrata_records =
     (if socrata_records = [] then Inr legistar_items
      else
        case correlate_sources legistar_items socrata_records of
          Inl e \<Rightarrow> Inl e
        | Inr (groups, items, unmatched_socrata_keys) \<Rightarrow>
            (case new_items self groups (sort (set_iter unmatched_socrata_keys)) of
               Inl e \<Rightarrow> Inl e
             | Inr new \<Rightarrow> Inr (sort_key item_sort_key (items @ new))))"


section \<open>The correlation as the specification words it\<close>

text \<open>
  The composite key of a vote record and of an agenda item: the date and the normalised
  agenda number. An item is indexed when its normalised number is not empty. The group
  of a key is the list of the records with that key, in the order of the input; the
  target of a key is the last indexed item with that key.
\<close>

definition record_key :: "pydict \<Rightarrow> key" where
  "record_key r = (take 10 (get r ''date''), normalize_periods (get r ''agenda_item_number''))"

definition legistar_key :: "item \<Rightarrow> key" where
  "legistar_key it = (event_date it, normalize_periods (agenda_number it))"

definition indexed_as :: "key \<Rightarrow> item \<Rightarrow> bool" where
  "indexed_as k it = (snd k \<noteq> [] \<and> legistar_key it = k)"

definition group_of :: "pydict list \<Rightarrow> key \<Rightarrow> pydict list" where
  "group_of rs k = filter (\<lambda>r. record_key r = k) rs"

definition target :: "item list \<Rightarrow> key \<Rightarrow> nat option" where
  "target its k =
     (case filter (\<lambda>j. indexed_as k (its ! j)) (rev [0..<length its]) of
        [] \<Rightarrow> None
      | j # _ \<Rightarrow> Some j)"

text \<open>
  The item at position \<open>i\<close> after the correlation: merged with the group of its key if
  it is the target of that key and the group is not empty, unchanged otherwise.
\<close>

definition correlated_item :: "item list \<Rightarrow> pydict list \<Rightarrow> nat \<Rightarrow> item" where
  "correlated_item its rs i =
     (let k = legistar_key (its ! i) in
      if target its k = Some i \<and> group_of rs k \<noteq> []
      then merge_socrata_into_item (its ! i) (group_of rs k)
      else its ! i)"

text \<open>
  The keys of the groups without a target, and the item synthesised for such a key from
  the first record of its group.
\<close>

definition unmatched_keys :: "item list \<Rightarrow> pydict list \<Rightarrow> key list" where
  "unmatched_keys its rs = filter (\<lambda>k. target its k = None) (remdups (map record_key rs))"

definition synthesized_item :: "workflow \<Rightarrow> pydict list \<Rightarrow> key \<Rightarrow> item" where
  "synthesized_item self rs k =
     merge_socrata_into_item (new_item self k (hd (group_of rs k))) (group_of rs k)"

section \<open>Loading the CSV rows (build_site.py)\<close>

text \<open>
  A row is the dictionary that \<open>csv.DictReader\<close> yields: column name to cell, in the
  order of the header. Every cell is read as \<open>row.get(col) or ""\<close> or handed to a function
  that does the same, so an absent cell and an empty one are alike. The member columns
  are the columns of the header that are not among the fixed ones.
\<close>

definition fixed_cols :: "string list" where
  "fixed_cols =
    [''event_id'', ''event_date'', ''event_time'', ''event_body'',
     ''event_location'', ''event_item_id'', ''agenda_number'',
     ''agenda_sequence'', ''title'', ''matter_file'', ''matter_type'',
     ''matter_status'', ''matter_id'', ''matter_title'',
     ''matter_intro_date'', ''matter_enactment_number'',
     ''matter_requester'', ''matter_body_name'', ''passed'',
     ''vote_type'', ''consent'', ''tally'', ''mover'', ''seconder'',
     ''roll_call_flag'', ''socrata_item_number'',
     ''socrata_agenda_info'', ''socrata_final_action'',
     ''agenda_link'', ''minutes_link'', ''video_link'',
     ''attachment_links'']"

definition member_cols :: "pydict \<Rightarrow> string list" where
  "member_cols row = filter (\<lambda>c. c \<notin> set fixed_cols) (map fst row)"

definition SECTION_HEADERS :: "string list" where
  "SECTION_HEADERS =
    [''AGENDA'', ''ORDER OF BUSINESS'', ''INVOCATION'', ''PLEDGE OF ALLEGIANCE'',
     ''OPEN MICROPHONE'', ''MINUTES'', ''CONSENT AGENDA'',
     ''ITEMS FOR INDIVIDUAL CONSIDERATION'', ''ADDITIONS'', ''ZONING'',
     ''PUBLIC HEARINGS AND RELATED ACTIONS'', ''ADJOURNMENT'',
     ''BRIEFINGS'', ''PRESENTATIONS'']"

text \<open>
  \<open>classify_non_voted_item\<close> returns the category, the importance and the display type.
\<close>

definition classify_non_voted_item ::
  "string \<Rightarrow> string \<Rightarrow> string \<Rightarrow> string \<Rightarrow> string \<times> string \<times> string" where
  "classify_non_voted_item title' matter_type matter_status final_action =
     (let t_upper = upper (strip title');
          ms = upper (strip matter_status);
          fa = upper (strip final_action)
      in
      if list_ex (\<lambda>sh. t_upper = sh \<or> startswith t_upper (sh @ [CHR 0x0A])) SECTION_HEADERS
        then (''committee_header'', ''medium'', ''section_header'')
      else if contains fa ''FIRST'' \<and> contains fa ''READ''
        then (''first_reading'', ''high'', ''legislation'')
      else if contains t_upper ''FIRST READING''
        then (''first_reading'', ''high'', ''legislation'')
      else if contains fa ''READ'' \<and> contains fa ''FILED''
        then (''read_and_filed'', ''low'', ''procedural'')
      else if contains fa ''ADOPTED'' \<or> contains ms ''APPROVED''
        then (''adopted_no_vote'', ''medium'', ''legislation'')
      else if contains fa ''CORRECT'' \<or> contains ms ''CORRECT''
        then (''corrections'', ''low'', ''procedural'')
      else if contains t_upper ''HEARING''
        then (''other'', ''medium'', ''legislation'')
      else (''other'', ''low'', ''procedural''))"

text \<open>
  The records that the loader builds. They keep the entries that the counts, the member
  statistics and the orderings read; the descriptive entries copied from the row
  (title, section, topics, description, matter file and type, links) are left out.
\<close>

record vote_record =
  id_vote :: nat
  outcome :: string
  ayes :: nat
  noes :: nat
  abstain :: nat
  absent :: nat
  item_number :: string
  meeting_date :: string
  meeting_id :: nat
  member_votes :: "(string \<times> string) list"

record agenda_item =
  agenda_sequence :: int
  item_type :: string
  category :: "string option"
  importance :: "string option"
  display_type :: "string option"
  vote :: "nat option"

record meeting =
  id_meeting :: nat
  event_id :: string
  meeting_date :: string
  vote_count :: nat
  non_voted_count :: nat
  first_reading_count :: nat
  agenda_item_count :: nat
  agenda_items :: "agenda_item list"

text \<open>
  The builder: \<open>members\<close> maps a canonical name to the short name of the member,
  \<open>current_members\<close> are the names of the latest roster.
\<close>

record builder =
  members :: "(string \<times> string) list"
  current_members :: "string set"
  meetings :: "meeting list"
  votes :: "vote_record list"
  vote_id_counter :: nat
  meeting_id_counter :: nat

definition new_builder :: "(string \<times> string) list \<Rightarrow> string set \<Rightarrow> builder" where
  "new_builder ms cur =
     \<lparr>members = ms, current_members = cur, meetings = [], votes = [],
      vote_id_counter = 0, meeting_id_counter = 0\<rparr>"

text \<open>
  \<^verbatim>\<open>
  member_votes = {}
  for col in member_cols:
      canonical = normalize_name(col)
      raw_vote = (row.get(col) or "").strip()
      mapped = map_vote(raw_vote)
      if mapped is not None and canonical in self.members:
          member_votes[canonical] = mapped
  \<close>
\<close>

fun collect_member_votes ::
  "builder \<Rightarrow> pydict \<Rightarrow> string list \<Rightarrow> (string \<times> string) list \<Rightarrow> (string \<times> string) list" where
  "collect_member_votes self row [] member_votes' = member_votes'"
| "collect_member_votes self row (col # cols) member_votes' =
     (let canonical = normalize_name col;
          raw_vote = strip (get row col)
      in
      case map_vote raw_vote of
        None \<Rightarrow> collect_member_votes self row cols member_votes'
      | Some mapped \<Rightarrow>
          if canonical \<in> fst ` set (members self)
          then collect_member_votes self row cols (dict_set member_votes' canonical mapped)
          else collect_member_votes self row cols member_votes')"

definition tally :: "string \<Rightarrow> (string \<times> string) list \<Rightarrow> nat" where
  "tally choice member_votes' = length (filter (\<lambda>v. v = choice) (map snd member_votes'))"

text \<open>
  The position of an item in its meeting:
  \<open>int(seq) if seq.isdigit() else meeting["agenda_item_count"] - 1\<close>.
\<close>

definition sequence_of :: "string \<Rightarrow> nat \<Rightarrow> py_error + int" where
  "sequence_of seq item_count =
     (if isdigit seq then int_of_digits seq else Inr (int item_count - 1))"

text \<open>
  The state of the loop over the rows: the builder, the dictionary \<open>meetings_by_key\<close> (in
  insertion order) and the set \<open>seen_items\<close>, of which the code only asks membership.
\<close>

record loader =
  self :: builder
  meetings_by_key :: "((string \<times> string) \<times> meeting) list"
  seen_items :: "(string \<times> string) set"

definition new_meeting :: "nat \<Rightarrow> string \<Rightarrow> string \<Rightarrow> meeting" where
  "new_meeting n eid date =
     \<lparr>id_meeting = n, event_id = eid, meeting_date = date, vote_count = 0,
      non_voted_count = 0, first_reading_count = 0, agenda_item_count = 0,
      agenda_items = []\<rparr>"

definition voted_row ::
  "loader \<Rightarrow> pydict \<Rightarrow> string \<times> string \<Rightarrow> meeting \<Rightarrow> string \<Rightarrow> string \<Rightarrow> string \<Rightarrow>
     (string \<times> string) list \<Rightarrow> py_error + loader" where
  "voted_row st row meeting_key meeting date seq item_num member_votes' =
     (let vote_id = vote_id_counter (self st) + 1;
          outcome' = derive_outcome (PyStr (get row ''passed''))
                      (Some (get row ''socrata_final_action''))
                      (Some (get row ''matter_status''));
          vote_record =
            \<lparr>id_vote = vote_id,
             outcome = outcome',
             ayes = tally ''AYE'' member_votes',
             noes = tally ''NAY'' member_votes',
             abstain = tally ''ABSTAIN'' member_votes',
             absent = tally ''ABSENT'' member_votes',
             item_number = (let n = rstrip ''.'' item_num in if n \<noteq> [] then n else seq),
             meeting_date = date,
             meeting_id = id_meeting meeting,
             member_votes = member_votes'\<rparr>
      in
      case sequence_of seq (agenda_item_count meeting) of
        Inl e \<Rightarrow> Inl e
      | Inr n \<Rightarrow>
          (let agenda_item =
                 \<lparr>agenda_sequence = n, item_type = ''voted'', category = None,
                  importance = None, display_type = None, vote = Some vote_id\<rparr>;
               meeting = meeting
                 \<lparr>vote_count := vote_count meeting + 1,
                  agenda_items := agenda_items meeting @ [agenda_item]\<rparr>
           in
           Inr (st\<lparr>self := (self st)\<lparr>votes := votes (self st) @ [vote_record],
                                       vote_id_counter := vote_id\<rparr>,
                   meetings_by_key := dict_set (meetings_by_key st) meeting_key meeting\<rparr>)))"

definition non_voted_row ::
  "loader \<Rightarrow> pydict \<Rightarrow> string \<times> string \<Rightarrow> meeting \<Rightarrow> string \<Rightarrow> string \<Rightarrow>
     py_error + loader" where
  "non_voted_row st row meeting_key meeting title' seq =
     (let fa = strip (get row ''socrata_final_action'');
          (category', importance', display_type') =
            classify_non_voted_item title' (get row ''matter_type'') (get row ''matter_status'') fa;
          meeting = meeting\<lparr>non_voted_count := non_voted_count meeting + 1\<rparr>;
          meeting =
            (if category' = ''first_reading''
             then meeting\<lparr>first_reading_count := first_reading_count meeting + 1\<rparr>
             else meeting)
      in
      case sequence_of seq (agenda_item_count meeting) of
        Inl e \<Rightarrow> Inl e
      | Inr n \<Rightarrow>
          (let agenda_item =
                 \<lparr>agenda_sequence = n, item_type = ''non_voted'', category = Some category',
                  importance = Some importance', display_type = Some display_type',
                  vote = None\<rparr>;
               meeting = meeting\<lparr>agenda_items := agenda_items meeting @ [agenda_item]\<rparr>
           in
           Inr (st\<lparr>meetings_by_key := dict_set (meetings_by_key st) meeting_key meeting\<rparr>)))"

text \<open>
  \<^verbatim>\<open>
  if meeting_key not in meetings_by_key:
      self.meeting_id_counter += 1
      meetings_by_key[meeting_key] = {"id": self.meeting_id_counter, ...}
  \<close>
\<close>

definition ensure_meeting :: "loader \<Rightarrow> string \<times> string \<Rightarrow> loader" where
  "ensure_meeting st meeting_key =
     (if map_of (meetings_by_key st) meeting_key = None
      then
        let n = meeting_id_counter (self st) + 1 in
        st\<lparr>self := (self st)\<lparr>meeting_id_counter := n\<rparr>,
           meetings_by_key :=
             dict_set (meetings_by_key st) meeting_key
               (new_meeting n (fst meeting_key) (snd meeting_key))\<rparr>
      else st)"

text \<open>One turn of the loop over the rows; a skipped row leaves the state as it is.\<close>

definition process_row :: "loader \<Rightarrow> pydict \<Rightarrow> py_error + loader" where
  "process_row st row =
     (let date = strip (get row ''event_date'') in
      if date = [] then Inr st
      else
        let event_id' = strip (get row ''event_id'');
            seq = strip (get row ''agenda_sequence'');
            item_num = strip (get row ''agenda_number'');
            title' = strip (get row ''title'');
            eid = strip (get row ''event_item_id'')
        in
        if title' = [] then Inr st
        else
          let item_key =
                (date, if eid \<noteq> [] then eid else seq @ ''_'' @ item_num @ ''_'' @ take 50 title')
          in
          if item_key \<in> seen_items st then Inr st
          else
            let st = st\<lparr>seen_items := insert item_key (seen_items st)\<rparr>;
                meeting_key = (event_id', date);
                st = ensure_meeting st meeting_key;
                meeting = dict_get (meetings_by_key st) meeting_key (new_meeting 0 event_id' date);
                member_votes' = collect_member_votes (self st) row (member_cols row) [];
                has_votes = (member_votes' \<noteq> []);
                meeting = meeting\<lparr>agenda_item_count := agenda_item_count meeting + 1\<rparr>
            in
            if has_votes
            then voted_row st row meeting_key meeting date seq item_num member_votes'
            else non_voted_row st row meeting_key meeting title' seq)"

fun process_rows :: "loader \<Rightarrow> pydict list \<Rightarrow> py_error + loader" where
  "process_rows st [] = Inr st"
| "process_rows st (row # rows) =
     (case process_row st row of
        Inl e \<Rightarrow> Inl e
      | Inr st' \<Rightarrow> process_rows st' rows)"

text \<open>
  \<open>sorted(xs, key=k, reverse=True)\<close> is descending and stable: records with equal keys
  keep their order.
\<close>

definition sort_key_desc :: "('a \<Rightarrow> 'k::linorder) \<Rightarrow> 'a list \<Rightarrow> 'a list" where
  "sort_key_desc k xs = rev (sort_key k (rev xs))"

definition load_all_csv_data :: "builder \<Rightarrow> pydict list \<Rightarrow> py_error + builder" where
  "load_all_csv_data b rows =
     (case process_rows \<lparr>self = b, meetings_by_key = [], seen_items = {}\<rparr> rows of
        Inl e \<Rightarrow> Inl e
      | Inr st \<Rightarrow>
          (let ms = map (\<lambda>m. m\<lparr>agenda_items := sort_key agenda_sequence (agenda_items m)\<rparr>)
                      (map snd (meetings_by_key st))
           in
           Inr ((self st)
                  \<lparr>meetings := sort_key_desc meeting_date ms,
                   votes := sort_key_desc (\<lambda>v. (vote_record.meeting_date v, item_number v))
                              (votes (self st))\<rparr>)))"

section \<open>Member statistics and alignment (build_site.py)\<close>

text \<open>
  Python computes the percentages in binary floating point and rounds them to one
  decimal, \<open>round(a / b * 100, 1)\<close>. The model computes the quotient exactly and rounds
  it to the nearest tenth, a tie to the even one; the two agree unless the exact value
  lies half-way between two tenths, where the floating-point result may be either
  neighbour.
\<close>

definition round1 :: "rat \<Rightarrow> rat" where
  "round1 q =
     (let t = q * 10;
          f = \<lfloor>t\<rfloor>;
          d = t - of_int f
      in
      if d < 1 / 2 then of_int f / 10
      else if 1 / 2 < d then of_int (f + 1) / 10
      else if even f then of_int f / 10
      else of_int (f + 1) / 10)"

definition percentage :: "int \<Rightarrow> int \<Rightarrow> rat" where
  "percentage a b = round1 (of_int a / of_int b * 100)"

text \<open>The counters of the loop of \<open>_compute_member_stats\<close>.\<close>

record counters =
  total :: nat
  aye_count :: nat
  nay_count :: nat
  abstain_count :: nat
  absent_count :: nat
  recusal_count :: nat
  votes_on_losing_side :: nat
  close_vote_dissents :: nat

definition count_vote :: "string \<Rightarrow> counters \<Rightarrow> vote_record \<Rightarrow> counters" where
  "count_vote name c v =
     (case map_of (member_votes v) name of
        None \<Rightarrow> c
      | Some mv \<Rightarrow>
          (let c = c\<lparr>total := total c + 1\<rparr>;
               c = (if mv = ''AYE'' then c\<lparr>aye_count := aye_count c + 1\<rparr>
                    else if mv = ''NAY'' then c\<lparr>nay_count := nay_count c + 1\<rparr>
                    else if mv = ''ABSTAIN'' then c\<lparr>abstain_count := abstain_count c + 1\<rparr>
                    else if mv = ''ABSENT'' then c\<lparr>absent_count := absent_count c + 1\<rparr>
                    else if mv = ''RECUSAL'' then c\<lparr>recusal_count := recusal_count c + 1\<rparr>
                    else c);
               outcome' = outcome v
           in
           if outcome' = ''PASS'' \<or> outcome' = ''FAIL'' then
             (let on_losing = ((outcome' = ''PASS'' \<and> mv = ''NAY'') \<or>
                               (outcome' = ''FAIL'' \<and> mv = ''AYE''))
              in
              if on_losing then
                (let c = c\<lparr>votes_on_losing_side := votes_on_losing_side c + 1\<rparr>;
                     margin = \<bar>int (ayes v) - int (noes v)\<bar>
                 in if margin \<le> 2 then c\<lparr>close_vote_dissents := close_vote_dissents c + 1\<rparr>
                    else c)
              else c)
           else c))"

definition special_outcomes :: "string \<Rightarrow> vote_record list \<Rightarrow> nat" where
  "special_outcomes name vs =
     length (filter (\<lambda>v. map_of (member_votes v) name \<noteq> None \<and>
                          \<not> (outcome v = ''PASS'' \<or> outcome v = ''FAIL'')) vs)"

text \<open>
  The result of \<open>_compute_member_stats\<close>. \<open>dissent_denom\<close> is not an entry of the
  dictionary that Python returns; it is kept here beside the rate it divides.
\<close>

record member_stats =
  total_votes :: nat
  aye_count :: nat
  nay_count :: nat
  abstain_count :: nat
  absent_count :: nat
  recusal_count :: nat
  aye_percentage :: rat
  participation_rate :: rat
  dissent_denom :: int
  dissent_rate :: rat
  votes_on_losing_side :: nat
  votes_on_winning_side :: int
  close_vote_dissents :: nat

definition compute_member_stats :: "builder \<Rightarrow> string \<Rightarrow> member_stats" where
  "compute_member_stats b name =
     (let c = foldl (count_vote name)
                \<lparr>total = 0, aye_count = 0, nay_count = 0, abstain_count = 0, absent_count = 0,
                 recusal_count = 0, votes_on_losing_side = 0, close_vote_dissents = 0\<rparr>
                (votes b);
          valid_votes = int (total c) - int (counters.absent_count c) - int (counters.abstain_count c);
          special = int (special_outcomes name (votes b));
          denom = (if special < valid_votes then valid_votes - special else 1)
      in
      \<lparr>total_votes = total c,
       aye_count = counters.aye_count c,
       nay_count = counters.nay_count c,
       abstain_count = counters.abstain_count c,
       absent_count = counters.absent_count c,
       recusal_count = counters.recusal_count c,
       aye_percentage =
         (if total c \<noteq> 0 then percentage (int (counters.aye_count c)) (int (total c)) else 0),
       participation_rate =
         (if total c \<noteq> 0
          then percentage (int (total c) - int (counters.absent_count c)
                           - int (counters.abstain_count c)) (int (total c))
          else 0),
       dissent_denom = denom,
       dissent_rate =
         (if denom \<noteq> 0 then percentage (int (counters.votes_on_losing_side c)) denom else 0),
       votes_on_losing_side = counters.votes_on_losing_side c,
       votes_on_winning_side =
         int (total c) - int (counters.votes_on_losing_side c) - int (counters.absent_count c)
         - int (counters.abstain_count c) - int (counters.recusal_count c),
       close_vote_dissents = counters.close_vote_dissents c\<rparr>)"








section \<open>Invariants of the loader\<close>

text \<open>
  The derived counts of a meeting agree with its list of agenda items, and every agenda
  item is of exactly one of the two types.
\<close>

definition counts_ok :: "meeting \<Rightarrow> bool" where
  "counts_ok m =
     (agenda_item_count m = length (agenda_items m) \<and>
      vote_count m = length (filter (\<lambda>a. item_type a = ''voted'') (agenda_items m)) \<and>
      non_voted_count m = length (filter (\<lambda>a. item_type a = ''non_voted'') (agenda_items m)) \<and>
      first_reading_count m =
        length (filter (\<lambda>a. category a = Some ''first_reading'') (agenda_items m)) \<and>
      vote_count m + non_voted_count m = agenda_item_count m \<and>
      list_all (\<lambda>a. (item_type a = ''voted'') \<noteq> (item_type a = ''non_voted'')) (agenda_items m))"

definition meetings_ok :: "loader \<Rightarrow> bool" where
  "meetings_ok st = list_all (\<lambda>p. counts_ok (snd p)) (meetings_by_key st)"

text \<open>
  Every choice stored by the loader is one of the four values of the mapping table.
\<close>

definition choices_ok :: "(string \<times> string) list \<Rightarrow> bool" where
  "choices_ok mv = list_all (\<lambda>p. snd p \<in> set [''AYE'', ''NAY'', ''ABSENT'', ''ABSTAIN'']) mv"

definition votes_ok :: "vote_record list \<Rightarrow> bool" where
  "votes_ok vs = list_all (\<lambda>v. choices_ok (member_votes v)) vs"

section \<open>The statistics as the specification words them\<close>

text \<open>
  A vote is on the losing side when the choice opposes the outcome; a close dissent is a
  losing-side vote with a margin of at most two; the denominator of the dissent rate is
  the number of records with outcome PASS or FAIL on which the member made a choice
  other than ABSENT or ABSTAIN, floored at 1.
\<close>

definition on_losing_side :: "string \<Rightarrow> vote_record \<Rightarrow> bool" where
  "on_losing_side name v =
     ((outcome v = ''PASS'' \<and> map_of (member_votes v) name = Some ''NAY'') \<or>
      (outcome v = ''FAIL'' \<and> map_of (member_votes v) name = Some ''AYE''))"

definition close_dissent :: "string \<Rightarrow> vote_record \<Rightarrow> bool" where
  "close_dissent name v = (on_losing_side name v \<and> \<bar>int (ayes v) - int (noes v)\<bar> \<le> 2)"

definition decided_participation :: "string \<Rightarrow> vote_record \<Rightarrow> bool" where
  "decided_participation name v =
     (case map_of (member_votes v) name of
        None \<Rightarrow> False
      | Some mv \<Rightarrow> mv \<noteq> ''ABSENT'' \<and> mv \<noteq> ''ABSTAIN'' \<and>
                   (outcome v = ''PASS'' \<or> outcome v = ''FAIL''))"

definition dissent_denom_spec :: "string \<Rightarrow> vote_record list \<Rightarrow> int" where
  "dissent_denom_spec name vs = max 1 (int (length (filter (decided_participation name) vs)))"



section \<open>An example run\<close>

text \<open>
  Three members and one meeting of four rows: two items that pass two to one with Ann
  Lee voting no, one deferred item on which she is absent, and a first reading without
  a vote.
\<close>

definition example_builder :: builder where
  "example_builder =
     new_builder [(''Ann Lee'', ''Lee''), (''Bob Ray'', ''Ray''), (''Cy Orr'', ''Orr'')]
       {''Ann Lee'', ''Bob Ray'', ''Cy Orr''}"

definition example_row ::
  "string \<Rightarrow> string \<Rightarrow> string \<Rightarrow> string \<Rightarrow> string \<Rightarrow> string \<Rightarrow> string \<Rightarrow> pydict" where
  "example_row seq title' passed' final_action ann bob cy =
     [(''event_id'', ''17''), (''event_date'', ''2025-10-15''), (''agenda_sequence'', seq),
      (''agenda_number'', seq @ ''.''), (''title'', title'), (''passed'', passed'),
      (''socrata_final_action'', final_action),
      (''Ann Lee'', ann), (''Bob Ray'', bob), (''Cy Orr'', cy)]"

definition example_rows :: "pydict list" where
  "example_rows =
     [example_row ''1'' ''Street repair contract'' ''1'' ''APPROVED'' ''NO'' ''YES'' ''YES'',
      example_row ''2'' ''Zoning case Z-12'' ''1'' ''APPROVED'' ''NO'' ''YES'' ''YES'',
      example_row ''3'' ''Budget amendment'' [] ''DEFERRED'' ''ABSNT'' ''YES'' ''NO'',
      example_row ''4'' ''An ordinance on first reading'' [] [] [] [] []]"

text \<open>The builder after loading the example rows.\<close>

definition example_votes :: "vote_record list" where
  "example_votes =
     [\<lparr>id_vote = 3, outcome = ''CONTINUED'', ayes = 1, noes = 1, abstain = 0, absent = 1,
       item_number = ''3'', meeting_date = ''2025-10-15'', meeting_id = 1,
       member_votes = [(''Ann Lee'', ''ABSENT''), (''Bob Ray'', ''AYE''), (''Cy Orr'', ''NAY'')]\<rparr>,
      \<lparr>id_vote = 2, outcome = ''PASS'', ayes = 2, noes = 1, abstain = 0, absent = 0,
       item_number = ''2'', meeting_date = ''2025-10-15'', meeting_id = 1,
       member_votes = [(''Ann Lee'', ''NAY''), (''Bob Ray'', ''AYE''), (''Cy Orr'', ''AYE'')]\<rparr>,
      \<lparr>id_vote = 1, outcome = ''PASS'', ayes = 2, noes = 1, abstain = 0, absent = 0,
       item_number = ''1'', meeting_date = ''2025-10-15'', meeting_id = 1,
       member_votes = [(''Ann Lee'', ''NAY''), (''Bob Ray'', ''AYE''), (''Cy Orr'', ''AYE'')]\<rparr>]"

definition example_meeting :: meeting where
  "example_meeting =
     \<lparr>id_meeting = 1, event_id = ''17'', meeting_date = ''2025-10-15'', vote_count = 3,
      non_voted_count = 1, first_reading_count = 1, agenda_item_count = 4,
      agenda_items =
        [\<lparr>agenda_sequence = 1, item_type = ''voted'', category = None, importance = None,
          display_type = None, vote = Some 1\<rparr>,
         \<lparr>agenda_sequence = 2, item_type = ''voted'', category = None, importance = None,
          display_type = None, vote = Some 2\<rparr>,
         \<lparr>agenda_sequence = 3, item_type = ''voted'', category = None, importance = None,
          display_type = None, vote = Some 3\<rparr>,
         \<lparr>agenda_sequence = 4, item_type = ''non_voted'', category = Some ''first_reading'',
          importance = Some ''high'', display_type = Some ''legislation'', vote = None\<rparr>]\<rparr>"

definition example_loaded :: builder where
  "example_loaded =
     example_builder\<lparr>meetings := [example_meeting], votes := example_votes,
                     vote_id_counter := 3, meeting_id_counter := 1\<rparr>"

text \<open>
  Two sources for one day: agenda items of the legislative system, one of them listed
  twice under two spellings of its number, and vote records of the portal for that
  item and for an item the legislative system does not have.
\<close>

definition example_workflow :: workflow where
  "example_workflow =
     \<lparr>minutes_links = [(''2025-10-15'', ''https://example.org/minutes.pdf'')],
      swagit_videos = []\<rparr>"

definition example_item :: "string \<Rightarrow> int \<Rightarrow> string \<Rightarrow> item" where
  "example_item number seq title' =
     \<lparr>event_date = ''2025-10-15'', agenda_number = number, item.agenda_sequence = Some seq,
      title = title', passed = None, vote_type = [], socrata_item_number = [],
      socrata_agenda_info = [], socrata_final_action = [], item_votes = [],
      rest = [(''event_id'', PyInt 17)]\<rparr>"

definition example_items :: "item list" where
  "example_items =
     [example_item [] 1 ''CONSENT AGENDA'',
      example_item ''12'' 3 ''Street repair contract'']"


definition example_record :: "string \<Rightarrow> string \<Rightarrow> string \<Rightarrow> string \<Rightarrow> pydict" where
  "example_record number description voter choice =
     [(''date'', ''2025-10-15T00:00:00.000''), (''agenda_item_number'', number),
      (''agenda_item_description'', description), (''final_action_taken'', ''APPROVED''),
      (''voter_name'', voter), (''vote'', choice)]"

definition example_records :: "pydict list" where
  "example_records =
     [example_record ''12.'' ''Repair of streets'' ''Ann Lee'' ''YES'',
      example_record ''7'' ''Zoning case Z-12'' ''Ann Lee'' ''NO'',
      example_record ''12.'' ''Repair of streets'' ''Bob Ray'' ''NO'']"

section \<open>Verification: agenda-number normalisation\<close>

lemma decimal_digit_cases:
  "isdecimal_char c \<longleftrightarrow>
     c = CHR ''0'' \<or> c = CHR ''1'' \<or> c = CHR ''2'' \<or> c = CHR ''3'' \<or> c = CHR ''4'' \<or>
     c = CHR ''5'' \<or> c = CHR ''6'' \<or> c = CHR ''7'' \<or> c = CHR ''8'' \<or> c = CHR ''9''"
  by (auto simp: isdecimal_char_def decimal_digits_def)

lemma digit_value_bound: "isdecimal_char c \<Longrightarrow> digit_value c < 10"
  by (auto simp: decimal_digit_cases digit_value_def decimal_digits_def)

lemma digit_char_value: "isdecimal_char c \<Longrightarrow> digit_char (digit_value c) = c"
  by (auto simp: decimal_digit_cases digit_value_def digit_char_def decimal_digits_def)

lemma digit_value_zero: "isdecimal_char c \<Longrightarrow> digit_value c = 0 \<longleftrightarrow> c = CHR ''0''"
  by (auto simp: decimal_digit_cases digit_value_def decimal_digits_def)

lemma digits_value_snoc: "digits_value (s @ [c]) = 10 * digits_value s + digit_value c"
  by (simp add: digits_value_def)

lemma digits_value_zero:
  "list_all isdecimal_char s \<Longrightarrow> digits_value s = 0 \<longleftrightarrow> list_all (\<lambda>c. c = CHR ''0'') s"
proof (induction s rule: rev_induct)
  case Nil
  then show ?case by (simp add: digits_value_def)
next
  case (snoc c s)
  then show ?case by (auto simp: digits_value_snoc digit_value_zero)
qed

lemma str_nat_small: "d < 10 \<Longrightarrow> str_nat d = [digit_char d]"
  by simp

lemma str_nat_step:
  "d < 10 \<Longrightarrow>
     str_nat (10 * v + d) = (if v = 0 then [digit_char d] else str_nat v @ [digit_char d])"
  by (subst str_nat.simps) auto

lemma dropWhile_zeros_snoc:
  "dropWhile (\<lambda>c. c = CHR ''0'') (s @ [c]) =
     (if list_all (\<lambda>c. c = CHR ''0'') s then dropWhile (\<lambda>c. c = CHR ''0'') [c]
      else dropWhile (\<lambda>c. c = CHR ''0'') s @ [c])"
  by (induction s) auto

lemma dropWhile_zeros_Nil:
  "dropWhile (\<lambda>c. c = CHR ''0'') s = [] \<longleftrightarrow> list_all (\<lambda>c. c = CHR ''0'') s"
  by (induction s) auto

text \<open>
  The integer round trip \<open>str(int(s))\<close> on a string of decimal digits is the removal of
  its leading zeros (with a single zero left when there is nothing else).
\<close>

lemma str_nat_digits_value:
  "s \<noteq> [] \<Longrightarrow> list_all isdecimal_char s \<Longrightarrow> str_nat (digits_value s) = strip_leading_zeros s"
proof (induction s rule: rev_induct)
  case Nil
  then show ?case by simp
next
  case (snoc c s)
  then have c: "isdecimal_char c" and s: "list_all isdecimal_char s" by simp_all
  note d = digit_value_bound [OF c] digit_char_value [OF c]
  show ?case
  proof (cases "list_all (\<lambda>c. c = CHR ''0'') s")
    case True
    then have "digits_value s = 0" using digits_value_zero [OF s] by simp
    then show ?thesis using True d
      by (auto simp add: digits_value_snoc str_nat_small strip_leading_zeros_def
          dropWhile_zeros_snoc simp del: str_nat.simps)
  next
    case False
    then have nz: "digits_value s \<noteq> 0" using digits_value_zero [OF s] by simp
    from False have ne: "s \<noteq> []" by auto
    have "str_nat (digits_value s) = strip_leading_zeros s" using snoc.IH ne s by simp
    then show ?thesis using False nz d
      by (simp add: digits_value_snoc str_nat_step strip_leading_zeros_def dropWhile_zeros_snoc
          dropWhile_zeros_Nil list_all_iff del: str_nat.simps)
  qed
qed








section \<open>Verification: vote tokens\<close>

text \<open>
  Claim C5: \<open>map_vote\<close> is a total function into an optional choice, so it never raises.
  Its result is one of AYE, NAY, ABSENT, ABSTAIN or \<open>None\<close> (not a participant); it is
  \<open>None\<close> exactly when the trimmed, upper-cased token is not a key of the table, which
  covers the empty string and \<open>N/A\<close>; and \<open>YES\<close> maps to AYE, \<open>ABSNT_CB\<close> to ABSENT.
\<close>

theorem map_vote_fail_open:
  "map_vote raw \<in> {None, Some ''AYE'', Some ''NAY'', Some ''ABSENT'', Some ''ABSTAIN''} \<and>
   (map_vote raw = None) = (upper (strip raw) \<notin> fst ` set VOTE_MAP) \<and>
   map_vote [] = None \<and> map_vote ''N/A'' = None \<and>
   map_vote ''YES'' = Some ''AYE'' \<and> map_vote ''ABSNT_CB'' = Some ''ABSENT''"
proof -
  have "map_vote [] = None \<and> map_vote ''N/A'' = None \<and>
        map_vote ''YES'' = Some ''AYE'' \<and> map_vote ''ABSNT_CB'' = Some ''ABSENT''"
    by code_simp
  moreover have
    "map_vote raw \<in> {None, Some ''AYE'', Some ''NAY'', Some ''ABSENT'', Some ''ABSTAIN''}"
    by (simp add: map_vote_def VOTE_MAP_def Let_def)
  moreover have "(map_vote raw = None) = (upper (strip raw) \<notin> fst ` set VOTE_MAP)"
    by (simp add: map_vote_def VOTE_MAP_def Let_def)
  ultimately show ?thesis by blast
qed

text \<open>Witness for C5: a token that is not in the table.\<close>

theorem map_vote_fail_open_witness:
  "upper (strip ''Present'') \<notin> fst ` set VOTE_MAP \<and> map_vote ''Present'' = None"
proof -
  have "upper (strip ''Present'') \<notin> fst ` set VOTE_MAP" by code_simp
  with map_vote_fail_open [of "''Present''"] show ?thesis by blast
qed

section \<open>Verification: outcome derivation\<close>

text \<open>
  Claim C2, as stated, fails when the flag is false and the final action contains both
  DID NOT PASS and DEFERRED: the documented rule tests DID NOT PASS first and gives
  FAIL, the code tests DEFERRED first and gives CONTINUED. DENIED, which the claim puts
  beside DID NOT PASS, does come before DEFERRED in the code.
\<close>

theorem derive_outcome_counterexample:
  "passed_flag (PyInt 0) = Some False \<and>
   derive_outcome (PyInt 0) (Some ''DEFERRED - DID NOT PASS'') None = ''CONTINUED'' \<and>
   classify_spec (Some False) ''DEFERRED - DID NOT PASS'' [] = ''FAIL'' \<and>
   derive_outcome (PyInt 0) (Some ''DEFERRED - DENIED'') None = ''FAIL''"
  by code_simp

text \<open>
  Claim C2, amended: the classifier applies the documented precedence, first matching
  rule winning, except that with a false flag the tests are DENIED (FAIL), then DEFERRED
  (CONTINUED), then DELETED (WITHDRAWN), and FAIL otherwise, so that DID NOT PASS gives
  FAIL only when neither DEFERRED nor DELETED occurs. The four examples of the claim
  hold.
\<close>

theorem derive_outcome_precedence:
  "derive_outcome passed_val final_action matter_status =
     classify_denied_first (passed_flag passed_val)
       (upper (strip (or_empty final_action))) (upper (strip (or_empty matter_status))) \<and>
   derive_outcome (PyInt 1) final_action matter_status = ''PASS'' \<and>
   derive_outcome (PyInt 0) (Some ''ITEM DENIED'') matter_status = ''FAIL'' \<and>
   derive_outcome PyNone (Some ''MOTION APPROVED'') matter_status = ''PASS'' \<and>
   derive_outcome PyNone (Some []) None = ''PASS''"
proof -
  have refine: "derive_outcome pv fa ms =
      classify_denied_first (passed_flag pv)
        (upper (strip (or_empty fa))) (upper (strip (or_empty ms)))" for pv fa ms
    by (simp add: derive_outcome_def classify_denied_first_def passed_flag_def
        classify_text_def spec_approval_keywords_def spec_denial_keywords_def Let_def)
  have one: "strip (py_str (PyInt 1)) = ''1''" by code_simp
  have zero: "strip (py_str (PyInt 0)) = ''0''" by code_simp
  have none: "strip (py_str PyNone) = ''None''" by code_simp
  have denied: "contains (upper (strip ''ITEM DENIED'')) ''DENIED''" by code_simp
  have approved: "contains (upper (strip ''MOTION APPROVED'')) ''APPROVED''" by code_simp
  have "derive_outcome (PyInt 1) final_action matter_status = ''PASS''"
    using one by (simp add: derive_outcome_def)
  moreover have "derive_outcome (PyInt 0) (Some ''ITEM DENIED'') matter_status = ''FAIL''"
    using zero denied by (simp add: derive_outcome_def Let_def)
  moreover have "derive_outcome PyNone (Some ''MOTION APPROVED'') matter_status = ''PASS''"
    using none approved by (simp add: derive_outcome_def Let_def)
  moreover have "derive_outcome PyNone (Some []) None = ''PASS''"
    by code_simp
  ultimately show ?thesis using refine by blast
qed

section \<open>Verification: the loader's counts\<close>

lemma set_dict_set: "set (dict_set d k v) \<subseteq> insert (k, v) (set d)"
  by (induction d k v rule: dict_set.induct) auto

lemma dict_get_in: "map_of d k \<noteq> None \<Longrightarrow> (k, dict_get d k dflt) \<in> set d"
  by (auto simp: dict_get_def dest: map_of_SomeD)

lemma map_of_dict_set: "map_of (dict_set d k v) = (map_of d)(k \<mapsto> v)"
  by (induction d k v rule: dict_set.induct) auto

lemma counts_ok_new: "counts_ok (new_meeting n e d)"
  by (simp add: counts_ok_def new_meeting_def)

lemma meetings_ok_dict_set:
  "meetings_ok st \<Longrightarrow> counts_ok m \<Longrightarrow>
     meetings_ok (st\<lparr>meetings_by_key := dict_set (meetings_by_key st) k m\<rparr>)"
  using set_dict_set [of "meetings_by_key st" k m]
  by (auto simp: meetings_ok_def list_all_iff)

lemma voted_row_ok:
  assumes "meetings_ok st" "counts_ok (m\<lparr>agenda_item_count := agenda_item_count m - 1\<rparr>)"
    "0 < agenda_item_count m"
    "voted_row st row k m date seq item_num mv = Inr st'"
  shows "meetings_ok st'"
proof -
  obtain n where n: "sequence_of seq (agenda_item_count m) = Inr n"
    using assms(4) by (auto simp: voted_row_def Let_def split: sum.splits)
  define m' where "m' = m\<lparr>vote_count := vote_count m + 1,
     agenda_items := agenda_items m @ [\<lparr>agenda_sequence = n, item_type = ''voted'', category = None,
                  importance = None, display_type = None, vote = Some (vote_id_counter (self st) + 1)\<rparr>]\<rparr>"
  have "counts_ok m'" using assms(2,3) by (auto simp: counts_ok_def m'_def)
  moreover have "meetings_by_key st' = dict_set (meetings_by_key st) k m'"
    using assms(4) n by (auto simp: voted_row_def Let_def m'_def)
  ultimately show ?thesis
    using assms(1) set_dict_set [of "meetings_by_key st" k m']
    by (auto simp: meetings_ok_def list_all_iff)
qed

lemma non_voted_row_ok:
  assumes "meetings_ok st" "counts_ok (m\<lparr>agenda_item_count := agenda_item_count m - 1\<rparr>)"
    "0 < agenda_item_count m"
    "non_voted_row st row k m ttl seq = Inr st'"
  shows "meetings_ok st'"
proof -
  obtain c i d where cls: "classify_non_voted_item ttl (get row ''matter_type'') (get row ''matter_status'')
      (strip (get row ''socrata_final_action'')) = (c, i, d)"
    by (cases "classify_non_voted_item ttl (get row ''matter_type'') (get row ''matter_status'')
      (strip (get row ''socrata_final_action''))") auto
  obtain n where n: "sequence_of seq (agenda_item_count m) = Inr n"
    using assms(4) cls by (auto simp: non_voted_row_def Let_def split: sum.splits if_splits)
  define m' where "m' = m\<lparr>non_voted_count := non_voted_count m + 1,
     first_reading_count := (if c = ''first_reading'' then first_reading_count m + 1 else first_reading_count m),
     agenda_items := agenda_items m @ [\<lparr>agenda_sequence = n, item_type = ''non_voted'', category = Some c,
                  importance = Some i, display_type = Some d, vote = None\<rparr>]\<rparr>"
  have "counts_ok m'" using assms(2,3) by (auto simp: counts_ok_def m'_def)
  moreover have "meetings_by_key st' = dict_set (meetings_by_key st) k m'"
    using assms(4) n cls by (auto simp: non_voted_row_def Let_def m'_def split: if_splits)
  ultimately show ?thesis
    using assms(1) set_dict_set [of "meetings_by_key st" k m']
    by (auto simp: meetings_ok_def list_all_iff)
qed


lemma meetings_ok_cong:
  "meetings_by_key st' = dict_set (meetings_by_key st) k m \<Longrightarrow> meetings_ok st \<Longrightarrow> counts_ok m \<Longrightarrow>
     meetings_ok st'"
  using set_dict_set [of "meetings_by_key st" k m]
  by (auto simp: meetings_ok_def list_all_iff)

lemma ensure_meeting_ok:
  assumes "meetings_ok st"
  shows "meetings_ok (ensure_meeting st k)"
proof (cases "map_of (meetings_by_key st) k = None")
  case True
  show ?thesis
    by (rule meetings_ok_cong [OF _ assms counts_ok_new]) (simp add: ensure_meeting_def True Let_def)
next
  case False
  then have "ensure_meeting st k = st" by (auto simp: ensure_meeting_def)
  then show ?thesis using assms by simp
qed

lemma ensure_meeting_present: "map_of (meetings_by_key (ensure_meeting st k)) k \<noteq> None"
  by (auto simp: ensure_meeting_def Let_def map_of_dict_set)

lemma meetings_ok_seen: "meetings_ok (st\<lparr>seen_items := s\<rparr>) = meetings_ok st"
  by (simp add: meetings_ok_def)

lemma fetched_ok:
  "meetings_ok st \<Longrightarrow> map_of (meetings_by_key st) k \<noteq> None \<Longrightarrow>
     counts_ok (dict_get (meetings_by_key st) k dflt)"
  using dict_get_in [of "meetings_by_key st" k dflt]
  by (auto simp: meetings_ok_def list_all_iff)

lemma process_row_unfold:
  assumes "date = strip (get row ''event_date'')"
    and "ttl = strip (get row ''title'')"
    and "eid = strip (get row ''event_item_id'')"
    and "seq = strip (get row ''agenda_sequence'')"
    and "item_num = strip (get row ''agenda_number'')"
    and "item_key = (date, if eid \<noteq> [] then eid else seq @ ''_'' @ item_num @ ''_'' @ take 50 ttl)"
    and "k = (strip (get row ''event_id''), date)"
    and "st1 = ensure_meeting (st\<lparr>seen_items := insert item_key (seen_items st)\<rparr>) k"
    and "m = dict_get (meetings_by_key st1) k (new_meeting 0 (strip (get row ''event_id'')) date)"
    and "m' = m\<lparr>agenda_item_count := agenda_item_count m + 1\<rparr>"
    and "mv = collect_member_votes (self st1) row (member_cols row) []"
  shows "process_row st row =
     (if date = [] then Inr st
      else if ttl = [] then Inr st
      else if item_key \<in> seen_items st then Inr st
      else if mv \<noteq> [] then voted_row st1 row k m' date seq item_num mv
      else non_voted_row st1 row k m' ttl seq)"
  by (simp only: assms process_row_def Let_def)

lemma process_row_ok:
  assumes "meetings_ok st" "process_row st row = Inr st'"
  shows "meetings_ok st'"
proof -
  define date where "date = strip (get row ''event_date'')"
  define ttl where "ttl = strip (get row ''title'')"
  define eid where "eid = strip (get row ''event_item_id'')"
  define seq where "seq = strip (get row ''agenda_sequence'')"
  define item_num where "item_num = strip (get row ''agenda_number'')"
  define item_key where
    "item_key = (date, if eid \<noteq> [] then eid else seq @ ''_'' @ item_num @ ''_'' @ take 50 ttl)"
  define k where "k = (strip (get row ''event_id''), date)"
  define st1 where "st1 = ensure_meeting (st\<lparr>seen_items := insert item_key (seen_items st)\<rparr>) k"
  define m where "m = dict_get (meetings_by_key st1) k
                        (new_meeting 0 (strip (get row ''event_id'')) date)"
  define m' where "m' = m\<lparr>agenda_item_count := agenda_item_count m + 1\<rparr>"
  define mv where "mv = collect_member_votes (self st1) row (member_cols row) []"
  note unfold = process_row_unfold [OF date_def ttl_def eid_def seq_def item_num_def item_key_def
      k_def st1_def m_def m'_def mv_def]
  have ok1: "meetings_ok st1"
    unfolding st1_def using assms(1) by (simp add: ensure_meeting_ok meetings_ok_seen)
  have "counts_ok m"
    unfolding m_def using ok1 by (rule fetched_ok) (simp add: st1_def ensure_meeting_present)
  then have okm: "counts_ok (m'\<lparr>agenda_item_count := agenda_item_count m' - 1\<rparr>)"
    and pos: "0 < agenda_item_count m'"
    by (simp_all add: m'_def)
  have step: "(if date = [] then Inr st
      else if ttl = [] then Inr st
      else if item_key \<in> seen_items st then Inr st
      else if mv \<noteq> [] then voted_row st1 row k m' date seq item_num mv
      else non_voted_row st1 row k m' ttl seq) = Inr st'"
    using assms(2) by (simp only: unfold)
  have "st' = st \<or> voted_row st1 row k m' date seq item_num mv = Inr st' \<or>
        non_voted_row st1 row k m' ttl seq = Inr st'"
  proof (cases "date = [] \<or> ttl = [] \<or> item_key \<in> seen_items st")
    case True
    then have "Inr st = (Inr st' :: py_error + loader)" using step by (simp split: if_splits)
    then show ?thesis by simp
  next
    case False
    then show ?thesis using step by (cases "mv = []") simp_all
  qed
  then consider (skip) "st' = st"
    | (voted) "voted_row st1 row k m' date seq item_num mv = Inr st'"
    | (non_voted) "non_voted_row st1 row k m' ttl seq = Inr st'"
    by blast
  then show ?thesis
  proof cases
    case skip
    then show ?thesis using assms(1) by simp
  next
    case voted
    then show ?thesis using voted_row_ok [OF ok1 okm pos] by blast
  next
    case non_voted
    then show ?thesis using non_voted_row_ok [OF ok1 okm pos] by blast
  qed
qed

lemma process_rows_ok:
  "meetings_ok st \<Longrightarrow> process_rows st rows = Inr st' \<Longrightarrow> meetings_ok st'"
proof (induction rows arbitrary: st)
  case Nil
  then show ?case by simp
next
  case (Cons row rows)
  then show ?case by (auto split: sum.splits dest: process_row_ok)
qed

lemma counts_ok_sorted:
  "counts_ok m \<Longrightarrow> counts_ok (m\<lparr>agenda_items := sort_key f (agenda_items m)\<rparr>)"
  by (simp add: counts_ok_def filter_sort list_all_iff)

lemma set_sort_key_desc: "set (sort_key_desc f xs) = set xs"
  by (simp add: sort_key_desc_def)

lemma load_counts_ok:
  assumes "load_all_csv_data b rows = Inr b'" "m \<in> set (meetings b')"
  shows "counts_ok m"
proof -
  obtain st where st: "process_rows \<lparr>self = b, meetings_by_key = [], seen_items = {}\<rparr> rows = Inr st"
    and b': "b' = (self st)
                  \<lparr>meetings := sort_key_desc meeting_date
                     (map (\<lambda>m. m\<lparr>agenda_items := sort_key agenda_sequence (agenda_items m)\<rparr>)
                      (map snd (meetings_by_key st))),
                   votes := sort_key_desc (\<lambda>v. (vote_record.meeting_date v, item_number v))
                              (votes (self st))\<rparr>"
    using assms(1) by (auto simp: load_all_csv_data_def Let_def split: sum.splits)
  have "meetings_ok \<lparr>self = b, meetings_by_key = [], seen_items = {}\<rparr>"
    by (simp add: meetings_ok_def)
  then have "meetings_ok st" using st by (rule process_rows_ok)
  then show ?thesis using assms(2) unfolding b'
    by (auto simp: set_sort_key_desc meetings_ok_def list_all_iff counts_ok_sorted)
qed

text \<open>
  Claim C7: for every meeting that the loader produces, \<open>agenda_item_count\<close> is the
  length of \<open>agenda_items\<close>; every agenda item is either voted or non-voted and never
  both, \<open>vote_count\<close> and \<open>non_voted_count\<close> are the sizes of the two parts, and they
  add up to \<open>agenda_item_count\<close>; \<open>first_reading_count\<close> is the number of agenda items
  of category \<open>first_reading\<close>.
\<close>

theorem meeting_counts_partition:
  assumes "load_all_csv_data b rows = Inr b'" and "m \<in> set (meetings b')"
  shows "agenda_item_count m = length (agenda_items m) \<and>
         vote_count m + non_voted_count m = agenda_item_count m \<and>
         vote_count m = length (filter (\<lambda>a. item_type a = ''voted'') (agenda_items m)) \<and>
         non_voted_count m =
           length (filter (\<lambda>a. item_type a = ''non_voted'') (agenda_items m)) \<and>
         list_all (\<lambda>a. (item_type a = ''voted'') \<noteq> (item_type a = ''non_voted''))
           (agenda_items m) \<and>
         first_reading_count m =
           length (filter (\<lambda>a. category a = Some ''first_reading'') (agenda_items m))"
  using load_counts_ok [OF assms] by (simp add: counts_ok_def)

text \<open>
  Witness for C7: the example run yields one meeting, with four agenda items, three of
  them voted and one a first reading.
\<close>

theorem meeting_counts_partition_witness:
  "\<exists>b' m. load_all_csv_data example_builder example_rows = Inr b' \<and> m \<in> set (meetings b') \<and>
     agenda_item_count m = 4 \<and> length (agenda_items m) = 4 \<and> vote_count m = 3 \<and>
     non_voted_count m = 1 \<and> first_reading_count m = 1 \<and>
     length (filter (\<lambda>a. category a = Some ''first_reading'') (agenda_items m)) = 1"
proof -
  have "case load_all_csv_data example_builder example_rows of
          Inl e \<Rightarrow> False
        | Inr b' \<Rightarrow> (case meetings b' of
                       [m] \<Rightarrow> agenda_item_count m = 4 \<and> vote_count m = 3 \<and>
                               non_voted_count m = 1 \<and> first_reading_count m = 1
                     | _ \<Rightarrow> False)"
    by code_simp
  then obtain b' m where l: "load_all_csv_data example_builder example_rows = Inr b'"
    and m: "m \<in> set (meetings b')"
    and c: "agenda_item_count m = 4" "vote_count m = 3" "non_voted_count m = 1"
       "first_reading_count m = 1"
    by (auto split: sum.splits list.splits)
  from meeting_counts_partition [OF l m] c l m show ?thesis by auto
qed

section \<open>Verification: no recusal\<close>

lemma map_vote_choice: "map_vote raw = Some c \<Longrightarrow> c \<in> set [''AYE'', ''NAY'', ''ABSENT'', ''ABSTAIN'']"
  by (auto simp: map_vote_def VOTE_MAP_def Let_def split: if_splits)

lemma choices_ok_dict_set:
  "choices_ok mv \<Longrightarrow> c \<in> set [''AYE'', ''NAY'', ''ABSENT'', ''ABSTAIN''] \<Longrightarrow> choices_ok (dict_set mv k c)"
  using set_dict_set [of mv k c] unfolding choices_ok_def list_all_iff by fastforce

lemma collect_member_votes_ok:
  "choices_ok mv \<Longrightarrow> choices_ok (collect_member_votes b row cols mv)"
proof (induction cols arbitrary: mv)
  case Nil
  then show ?case by simp
next
  case (Cons col cols)
  show ?case
  proof (cases "map_vote (strip (get row col))")
    case None
    then show ?thesis using Cons by (simp add: Let_def)
  next
    case (Some c)
    then have "choices_ok (dict_set mv (normalize_name col) c)"
      using Cons.prems map_vote_choice choices_ok_dict_set by blast
    then show ?thesis using Some Cons by (simp add: Let_def)
  qed
qed

lemma voted_row_votes:
  assumes "voted_row st row k m date seq item_num mv = Inr st'" "votes_ok (votes (self st))" "choices_ok mv"
  shows "votes_ok (votes (self st'))"
proof -
  obtain n where n: "sequence_of seq (agenda_item_count m) = Inr n"
    using assms(1) by (auto simp: voted_row_def Let_def split: sum.splits)
  have "\<exists>v. votes (self st') = votes (self st) @ [v] \<and> member_votes v = mv"
    using assms(1) n by (auto simp: voted_row_def Let_def)
  then show ?thesis using assms(2,3) by (auto simp: votes_ok_def)
qed

lemma non_voted_row_self:
  assumes "non_voted_row st row k m ttl seq = Inr st'"
  shows "self st' = self st"
proof -
  obtain c i d where cls: "classify_non_voted_item ttl (get row ''matter_type'') (get row ''matter_status'')
      (strip (get row ''socrata_final_action'')) = (c, i, d)"
    by (cases "classify_non_voted_item ttl (get row ''matter_type'') (get row ''matter_status'')
      (strip (get row ''socrata_final_action''))") auto
  show ?thesis
    using assms cls by (auto simp: non_voted_row_def Let_def split: sum.splits if_splits)
qed

lemma ensure_meeting_votes: "votes (self (ensure_meeting st k)) = votes (self st)"
  by (simp add: ensure_meeting_def Let_def)

lemma process_row_votes:
  assumes "votes_ok (votes (self st))" "process_row st row = Inr st'"
  shows "votes_ok (votes (self st'))"
proof -
  define date where "date = strip (get row ''event_date'')"
  define ttl where "ttl = strip (get row ''title'')"
  define eid where "eid = strip (get row ''event_item_id'')"
  define seq where "seq = strip (get row ''agenda_sequence'')"
  define item_num where "item_num = strip (get row ''agenda_number'')"
  define item_key where
    "item_key = (date, if eid \<noteq> [] then eid else seq @ ''_'' @ item_num @ ''_'' @ take 50 ttl)"
  define k where "k = (strip (get row ''event_id''), date)"
  define st1 where "st1 = ensure_meeting (st\<lparr>seen_items := insert item_key (seen_items st)\<rparr>) k"
  define m where "m = dict_get (meetings_by_key st1) k
                        (new_meeting 0 (strip (get row ''event_id'')) date)"
  define m' where "m' = m\<lparr>agenda_item_count := agenda_item_count m + 1\<rparr>"
  define mv where "mv = collect_member_votes (self st1) row (member_cols row) []"
  note unfold = process_row_unfold [OF date_def ttl_def eid_def seq_def item_num_def item_key_def
      k_def st1_def m_def m'_def mv_def]
  have ok1: "votes_ok (votes (self st1))"
    unfolding st1_def using assms(1) by (simp add: ensure_meeting_votes)
  have okmv: "choices_ok mv"
    unfolding mv_def by (rule collect_member_votes_ok) (simp add: choices_ok_def)
  have step: "(if date = [] then Inr st
      else if ttl = [] then Inr st
      else if item_key \<in> seen_items st then Inr st
      else if mv \<noteq> [] then voted_row st1 row k m' date seq item_num mv
      else non_voted_row st1 row k m' ttl seq) = Inr st'"
    using assms(2) by (simp only: unfold)
  have "st' = st \<or> voted_row st1 row k m' date seq item_num mv = Inr st' \<or>
        non_voted_row st1 row k m' ttl seq = Inr st'"
  proof (cases "date = [] \<or> ttl = [] \<or> item_key \<in> seen_items st")
    case True
    then have "Inr st = (Inr st' :: py_error + loader)" using step by (simp split: if_splits)
    then show ?thesis by simp
  next
    case False
    then show ?thesis using step by (cases "mv = []") simp_all
  qed
  then consider (skip) "st' = st"
    | (voted) "voted_row st1 row k m' date seq item_num mv = Inr st'"
    | (non_voted) "non_voted_row st1 row k m' ttl seq = Inr st'"
    by blast
  then show ?thesis
  proof cases
    case skip
    then show ?thesis using assms(1) by simp
  next
    case voted
    then show ?thesis using voted_row_votes ok1 okmv by blast
  next
    case non_voted
    then show ?thesis using non_voted_row_self ok1 by metis
  qed
qed

lemma process_rows_votes:
  "votes_ok (votes (self st)) \<Longrightarrow> process_rows st rows = Inr st' \<Longrightarrow> votes_ok (votes (self st'))"
proof (induction rows arbitrary: st)
  case Nil
  then show ?case by simp
next
  case (Cons row rows)
  then show ?case by (auto split: sum.splits dest: process_row_votes)
qed

lemma load_votes_ok:
  assumes "load_all_csv_data b rows = Inr b'" "votes_ok (votes b)"
  shows "votes_ok (votes b')"
proof -
  obtain st where st: "process_rows \<lparr>self = b, meetings_by_key = [], seen_items = {}\<rparr> rows = Inr st"
    and b': "votes b' = sort_key_desc (\<lambda>v. (vote_record.meeting_date v, item_number v))
                              (votes (self st))"
    using assms(1) by (auto simp: load_all_csv_data_def Let_def split: sum.splits)
  have "votes_ok (votes (self st))"
    using process_rows_votes [OF _ st] assms(2) by simp
  then show ?thesis unfolding b' by (simp add: votes_ok_def list_all_iff set_sort_key_desc)
qed

lemma count_vote_recusal:
  "choices_ok (member_votes v) \<Longrightarrow>
     counters.recusal_count (count_vote name c v) = counters.recusal_count c"
proof (cases "map_of (member_votes v) name")
  case None
  then show ?thesis by (simp add: count_vote_def)
next
  case (Some mv)
  assume "choices_ok (member_votes v)"
  then have "mv \<noteq> ''RECUSAL''"
    using map_of_SomeD [OF Some] by (auto simp: choices_ok_def list_all_iff)
  then show ?thesis using Some by (simp add: count_vote_def Let_def)
qed

lemma foldl_count_vote_recusal:
  "votes_ok vs \<Longrightarrow>
     counters.recusal_count (foldl (count_vote name) c vs) = counters.recusal_count c"
  by (induction vs arbitrary: c) (simp_all add: votes_ok_def count_vote_recusal)

lemma stats_recusal: "votes_ok (votes b) \<Longrightarrow> recusal_count (compute_member_stats b name) = 0"
  by (simp add: compute_member_stats_def Let_def foldl_count_vote_recusal)

text \<open>
  Claim C9: no raw token is mapped to RECUSAL; hence no vote record of a freshly loaded
  builder has RECUSAL in its member votes, and the \<open>recusal_count\<close> of every member is 0.
\<close>

theorem recusal_never_counted:
  "map_vote raw \<noteq> Some ''RECUSAL'' \<and>
   (load_all_csv_data (new_builder ms cur) rows = Inr b \<longrightarrow>
      list_all (\<lambda>v. list_all (\<lambda>p. snd p \<noteq> ''RECUSAL'') (member_votes v)) (votes b) \<and>
      recusal_count (compute_member_stats b name) = 0)"
proof -
  have "map_vote raw \<noteq> Some ''RECUSAL''"
    using map_vote_choice [of raw "''RECUSAL''"] by auto
  moreover have "list_all (\<lambda>v. list_all (\<lambda>p. snd p \<noteq> ''RECUSAL'') (member_votes v)) (votes b) \<and>
      recusal_count (compute_member_stats b name) = 0"
    if l: "load_all_csv_data (new_builder ms cur) rows = Inr b"
  proof -
    have "votes_ok (votes (new_builder ms cur))"
      by (simp add: new_builder_def votes_ok_def)
    with l have ok: "votes_ok (votes b)" by (rule load_votes_ok)
    then have "list_all (\<lambda>v. list_all (\<lambda>p. snd p \<noteq> ''RECUSAL'') (member_votes v)) (votes b)"
      unfolding votes_ok_def choices_ok_def list_all_iff by fastforce
    with ok show ?thesis by (simp add: stats_recusal)
  qed
  ultimately show ?thesis by blast
qed

text \<open>Witness for C9: the example run, and the member who is absent once.\<close>

theorem recusal_never_counted_witness:
  "\<exists>b. load_all_csv_data (new_builder (members example_builder) (current_members example_builder))
          example_rows = Inr b \<and>
       total_votes (compute_member_stats b ''Ann Lee'') = 3 \<and>
       recusal_count (compute_member_stats b ''Ann Lee'') = 0"
proof -
  have "case load_all_csv_data
               (new_builder (members example_builder) (current_members example_builder))
               example_rows of
          Inl e \<Rightarrow> False
        | Inr b \<Rightarrow> total_votes (compute_member_stats b ''Ann Lee'') = 3"
    by code_simp
  then obtain b where l: "load_all_csv_data
      (new_builder (members example_builder) (current_members example_builder)) example_rows = Inr b"
    and t: "total_votes (compute_member_stats b ''Ann Lee'') = 3"
    by (auto split: sum.splits)
  from recusal_never_counted [of "[]" "members example_builder" "current_members example_builder"
      example_rows b "''Ann Lee''"] l t
  show ?thesis by blast
qed

section \<open>Verification: the example run\<close>

lemma example_load: "load_all_csv_data example_builder example_rows = Inr example_loaded"
  by code_simp

section \<open>Verification: dissent\<close>

text \<open>
  The numerators are as the specification says: the loop counts the losing-side votes
  and, among them, the close dissents.
\<close>

lemma count_vote_losing:
  "counters.votes_on_losing_side (count_vote name c v) =
     counters.votes_on_losing_side c + (if on_losing_side name v then 1 else 0)"
  by (cases "map_of (member_votes v) name") (auto simp: count_vote_def on_losing_side_def Let_def)

lemma count_vote_close:
  "counters.close_vote_dissents (count_vote name c v) =
     counters.close_vote_dissents c + (if close_dissent name v then 1 else 0)"
  by (cases "map_of (member_votes v) name")
    (auto simp: count_vote_def close_dissent_def on_losing_side_def Let_def)

lemma foldl_count_vote_losing:
  "counters.votes_on_losing_side (foldl (count_vote name) c vs) =
     counters.votes_on_losing_side c + length (filter (on_losing_side name) vs)"
  by (induction vs arbitrary: c) (simp_all add: count_vote_losing)

lemma foldl_count_vote_close:
  "counters.close_vote_dissents (foldl (count_vote name) c vs) =
     counters.close_vote_dissents c + length (filter (close_dissent name) vs)"
  by (induction vs arbitrary: c) (simp_all add: count_vote_close)

lemma stats_losing_side:
  "votes_on_losing_side (compute_member_stats b name) = length (filter (on_losing_side name) (votes b)) \<and>
   close_vote_dissents (compute_member_stats b name) = length (filter (close_dissent name) (votes b))"
  by (simp add: compute_member_stats_def Let_def foldl_count_vote_losing foldl_count_vote_close)

text \<open>
  Claim C3 fails on the denominator of the dissent rate. The code takes the number of
  the member's choices other than ABSENT or ABSTAIN and subtracts every record of the
  member with an outcome other than PASS or FAIL, also those on which the member was
  absent or abstained, which were never part of that number. In the example run Ann Lee
  voted no on two items that passed and was absent on a deferred item: two losing-side
  votes, two records in the denominator of the claim, but the code divides by 1 and
  reports a dissent rate of 200.
\<close>

theorem dissent_denominator_example:
  "load_all_csv_data example_builder example_rows = Inr example_loaded \<and>
   votes_on_losing_side (compute_member_stats example_loaded ''Ann Lee'') = 2 \<and>
   length (filter (decided_participation ''Ann Lee'') (votes example_loaded)) = 2 \<and>
   dissent_denom_spec ''Ann Lee'' (votes example_loaded) = 2 \<and>
   dissent_denom (compute_member_stats example_loaded ''Ann Lee'') = 1 \<and>
   dissent_rate (compute_member_stats example_loaded ''Ann Lee'') = 200"
proof -
  have "votes_on_losing_side (compute_member_stats example_loaded ''Ann Lee'') = 2 \<and>
   length (filter (decided_participation ''Ann Lee'') (votes example_loaded)) = 2 \<and>
   dissent_denom_spec ''Ann Lee'' (votes example_loaded) = 2 \<and>
   dissent_denom (compute_member_stats example_loaded ''Ann Lee'') = 1 \<and>
   dissent_rate (compute_member_stats example_loaded ''Ann Lee'') = 200"
    by code_simp
  with example_load show ?thesis by blast
qed

section \<open>Verification: alignment\<close>












section \<open>Verification: correlation of the two sources\<close>

lemma decimal_isdigit: "s \<noteq> [] \<Longrightarrow> list_all isdecimal_char s \<Longrightarrow> isdigit s"
  by (auto simp: isdigit_def isdigit_char_def isdecimal_char_def list_all_iff)

lemma normalize_Inr:
  assumes "normalize_agenda_number raw = Inr n"
  shows "n = normalize_periods raw"
proof (cases "raw = []")
  case True
  then show ?thesis using assms
    by (simp add: normalize_agenda_number_def normalize_periods_def strip_def lstrip_def rstrip_def)
next
  case False
  define cleaned where "cleaned = rstrip ''.'' (strip raw)"
  show ?thesis
  proof (cases "cleaned \<noteq> [] \<and> list_all isdecimal_char cleaned")
    case True
    then have "isdigit cleaned" by (simp add: decimal_isdigit)
    then show ?thesis using assms False True str_nat_digits_value [of cleaned]
      by (simp add: normalize_agenda_number_def normalize_periods_def Let_def int_of_digits_def
          str_int_def cleaned_def [symmetric] del: str_nat.simps)
  next
    case nd: False
    then show ?thesis using assms False
      by (auto simp add: normalize_agenda_number_def normalize_periods_def Let_def int_of_digits_def
          cleaned_def [symmetric] split: if_splits simp del: str_nat.simps)
  qed
qed

subsection \<open>The groups of vote records\<close>

lemma dict_get_dict_set:
  "dict_get (dict_set d k v) k' dflt = (if k' = k then v else dict_get d k' dflt)"
  by (simp add: dict_get_def map_of_dict_set)

lemma keys_dict_set: "map fst (dict_set d k v) = (if k \<in> fst ` set d then map fst d else map fst d @ [k])"
  by (induction d k v rule: dict_set.induct) auto

lemma socrata_by_key_group:
  "socrata_by_key rs d = Inr g \<Longrightarrow> dict_get g k [] = dict_get d k [] @ group_of rs k"
proof (induction rs arbitrary: d)
  case Nil
  then show ?case by (simp add: group_of_def)
next
  case (Cons r rs)
  from Cons.prems obtain n where n: "normalize_agenda_number (get r ''agenda_item_number'') = Inr n"
    and g: "socrata_by_key rs (dict_set d (take 10 (get r ''date''), n)
               (dict_get d (take 10 (get r ''date''), n) [] @ [r])) = Inr g"
    by (auto simp: Let_def split: sum.splits)
  have key: "(take 10 (get r ''date''), n) = record_key r"
    using normalize_Inr [OF n] by (simp add: record_key_def)
  show ?case
    using Cons.IH [OF g] by (auto simp: key dict_get_dict_set group_of_def)
qed

lemma socrata_by_key_keys:
  "socrata_by_key rs d = Inr g \<Longrightarrow> distinct (map fst d) \<Longrightarrow>
     distinct (map fst g) \<and> fst ` set g = fst ` set d \<union> record_key ` set rs"
proof (induction rs arbitrary: d)
  case Nil
  then show ?case by simp
next
  case (Cons r rs)
  from Cons.prems obtain n where n: "normalize_agenda_number (get r ''agenda_item_number'') = Inr n"
    and g: "socrata_by_key rs (dict_set d (take 10 (get r ''date''), n)
               (dict_get d (take 10 (get r ''date''), n) [] @ [r])) = Inr g"
    by (auto simp: Let_def split: sum.splits)
  have key: "(take 10 (get r ''date''), n) = record_key r"
    using normalize_Inr [OF n] by (simp add: record_key_def)
  define d' where "d' = dict_set d (record_key r) (dict_get d (record_key r) [] @ [r])"
  have d': "distinct (map fst d')" "fst ` set d' = insert (record_key r) (fst ` set d)"
    using Cons.prems(2) unfolding d'_def
    by (auto simp: keys_dict_set simp flip: set_map)
  from Cons.IH [of d'] g d' show ?case by (auto simp: key d'_def)
qed

lemma socrata_by_key_nonempty:
  "socrata_by_key rs d = Inr g \<Longrightarrow> list_all (\<lambda>p. snd p \<noteq> []) d \<Longrightarrow> list_all (\<lambda>p. snd p \<noteq> []) g"
proof (induction rs arbitrary: d)
  case Nil
  then show ?case by simp
next
  case (Cons r rs)
  from Cons.prems obtain n where
    g: "socrata_by_key rs (dict_set d (take 10 (get r ''date''), n)
               (dict_get d (take 10 (get r ''date''), n) [] @ [r])) = Inr g"
    by (auto simp: Let_def split: sum.splits)
  have "list_all (\<lambda>p. snd p \<noteq> []) (dict_set d (take 10 (get r ''date''), n)
               (dict_get d (take 10 (get r ''date''), n) [] @ [r]))"
    using Cons.prems(2) set_dict_set [of d "(take 10 (get r ''date''), n)"
        "dict_get d (take 10 (get r ''date''), n) [] @ [r]"]
    unfolding list_all_iff by fastforce
  then show ?case using Cons.IH [OF g] by simp
qed

text \<open>The groups are the partition of the records by key.\<close>

lemma groups_partition:
  assumes "socrata_by_key rs [] = Inr g"
  shows "distinct (map fst g)" and "fst ` set g = record_key ` set rs"
    and "map_of g k = (if group_of rs k = [] then None else Some (group_of rs k))"
proof -
  show "distinct (map fst g)" and ks: "fst ` set g = record_key ` set rs"
    using socrata_by_key_keys [OF assms] by simp_all
  have ne: "list_all (\<lambda>p. snd p \<noteq> []) g"
    using socrata_by_key_nonempty [OF assms] by simp
  have dg: "dict_get g k [] = group_of rs k"
    using socrata_by_key_group [OF assms, of k] by (simp add: dict_get_def)
  show "map_of g k = (if group_of rs k = [] then None else Some (group_of rs k))"
  proof (cases "map_of g k")
    case None
    then show ?thesis using dg by (simp add: dict_get_def)
  next
    case (Some x)
    then have "x \<noteq> []" using ne map_of_SomeD [OF Some] by (auto simp: list_all_iff)
    then show ?thesis using dg Some by (simp add: dict_get_def)
  qed
qed


subsection \<open>The index of agenda items\<close>

lemma legistar_by_key_snoc:
  "legistar_by_key (its @ [it]) i d =
     (case legistar_by_key its i d of
        Inl e \<Rightarrow> Inl e
      | Inr d' \<Rightarrow> legistar_by_key [it] (i + length its) d')"
proof (induction its arbitrary: i d)
  case Nil
  then show ?case by simp
next
  case (Cons x xs)
  show ?case
  proof (cases "normalize_agenda_number (agenda_number x)")
    case (Inl e)
    then show ?thesis by simp
  next
    case (Inr n)
    then show ?thesis using Cons [of "Suc i"] by (simp add: Let_def cong: sum.case_cong)
  qed
qed

lemma target_Nil: "target [] k = None"
  by (simp add: target_def)

lemma target_snoc:
  "target (its @ [it]) k = (if indexed_as k it then Some (length its) else target its k)"
proof -
  have "filter (\<lambda>j. indexed_as k ((its @ [it]) ! j)) (rev [0..<length its]) =
        filter (\<lambda>j. indexed_as k (its ! j)) (rev [0..<length its])"
    by (rule filter_cong) (auto simp: nth_append)
  then show ?thesis by (simp add: target_def)
qed

lemma legistar_by_key_target:
  "legistar_by_key its 0 [] = Inr idx \<Longrightarrow> map_of idx k = target its k"
proof (induction its arbitrary: idx rule: rev_induct)
  case Nil
  then show ?case by (simp add: target_Nil)
next
  case (snoc it its)
  from snoc.prems obtain d' where d': "legistar_by_key its 0 [] = Inr d'"
    and one: "legistar_by_key [it] (length its) d' = Inr idx"
    by (auto simp: legistar_by_key_snoc split: sum.splits)
  from one obtain n where n: "normalize_agenda_number (agenda_number it) = Inr n"
    by (auto simp: Let_def split: sum.splits)
  have lk: "legistar_key it = (event_date it, n)"
    using normalize_Inr [OF n] by (simp add: legistar_key_def)
  have "idx = (if n \<noteq> [] then dict_set d' (event_date it, n) (length its) else d')"
    using one n by (auto simp: Let_def)
  then show ?case using snoc.IH [OF d'] lk
    by (auto simp: target_snoc indexed_as_def map_of_dict_set)
qed

lemma target_SomeD:
  "target its k = Some j \<Longrightarrow> j < length its \<and> indexed_as k (its ! j)"
proof -
  assume a: "target its k = Some j"
  then obtain js where "filter (\<lambda>j. indexed_as k (its ! j)) (rev [0..<length its]) = j # js"
    by (auto simp: target_def split: list.splits)
  then have "j \<in> set (filter (\<lambda>j. indexed_as k (its ! j)) (rev [0..<length its]))" by simp
  then show ?thesis by auto
qed




subsection \<open>The matching loop\<close>

lemma match_groups_result:
  assumes "match_groups idx gs items un = (items', un')"
    and "distinct (map fst gs)"
    and "\<And>k i. map_of idx k = Some i \<Longrightarrow> i < length items \<and> keyf i = k"
  shows "un' = un @ filter (\<lambda>k. map_of idx k = None) (map fst gs) \<and>
         length items' = length items \<and>
         (\<forall>i<length items. items' ! i =
            (case map_of gs (keyf i) of
               None \<Rightarrow> items ! i
             | Some rs \<Rightarrow> if map_of idx (keyf i) = Some i
                          then merge_socrata_into_item (items ! i) rs else items ! i))"
  using assms
proof (induction gs arbitrary: items un)
  case Nil
  then show ?case by simp
next
  case (Cons g gs)
  obtain k rs where g: "g = (k, rs)" by (cases g)
  have dist: "distinct (map fst gs)" and knew: "map_of gs k = None"
    using Cons.prems(2) by (auto simp: g map_of_eq_None_iff)
  show ?case
  proof (cases "map_of idx k")
    case None
    then have m: "match_groups idx gs items (un @ [k]) = (items', un')"
      using Cons.prems(1) by (simp add: g)
    have "keyf i \<noteq> k" if "map_of idx (keyf i) = Some i" for i
      using that None by auto
    with Cons.IH [OF m dist Cons.prems(3)] None knew show ?thesis
      by (auto simp: g)
  next
    case (Some i0)
    define items1 where "items1 = items[i0 := merge_socrata_into_item (items ! i0) rs]"
    have i0: "i0 < length items" "keyf i0 = k" using Cons.prems(3) [OF Some] by simp_all
    have m: "match_groups idx gs items1 un = (items', un')"
      using Cons.prems(1) Some by (simp add: g items1_def)
    have p3: "\<And>k i. map_of idx k = Some i \<Longrightarrow> i < length items1 \<and> keyf i = k"
      using Cons.prems(3) by (simp add: items1_def)
    have len1: "length items1 = length items" by (simp add: items1_def)
    note ih = Cons.IH [OF m dist p3, unfolded len1]
    have "items' ! i =
            (case map_of (g # gs) (keyf i) of
               None \<Rightarrow> items ! i
             | Some rs \<Rightarrow> if map_of idx (keyf i) = Some i
                          then merge_socrata_into_item (items ! i) rs else items ! i)"
      if i: "i < length items" for i
    proof (cases "i = i0")
      case True
      then show ?thesis using ih i i0 knew Some by (simp add: g items1_def)
    next
      case False
      then have same: "items1 ! i = items ! i" by (simp add: items1_def)
      show ?thesis
      proof (cases "keyf i = k")
        case True
        then have "map_of idx (keyf i) \<noteq> Some i" using Some False by simp
        then show ?thesis using ih i same knew True by (simp add: g)
      next
        case nk: False
        then show ?thesis using ih i same by (simp add: g split: option.splits)
      qed
    qed
    then show ?thesis using ih Some by (simp add: g items1_def)
  qed
qed

subsection \<open>The new items\<close>

lemma new_items_map:
  "list_all (\<lambda>k. \<exists>r rs. map_of groups k = Some (r # rs)) keys \<Longrightarrow>
     new_items w groups keys =
       Inr (map (\<lambda>k. merge_socrata_into_item (new_item w k (hd (the (map_of groups k))))
                        (the (map_of groups k))) keys)"
proof (induction keys)
  case Nil
  then show ?case by simp
next
  case (Cons k keys)
  then obtain r rs where "map_of groups k = Some (r # rs)" by auto
  then show ?case using Cons by simp
qed

lemma correlate_sources_spec:
  assumes "correlate_sources A B = Inr (groups, items, un)"
  shows "items = map (correlated_item A B) [0..<length A]"
    and "un = filter (\<lambda>k. target A k = None) (map fst groups)"
    and "distinct (map fst groups)"
    and "fst ` set groups = record_key ` set B"
    and "map_of groups k = (if group_of B k = [] then None else Some (group_of B k))"
proof -
  from assms obtain idx where g: "socrata_by_key B [] = Inr groups"
    and ix: "legistar_by_key A 0 [] = Inr idx"
    and m: "match_groups idx groups A [] = (items, un)"
    by (auto simp: correlate_sources_def Let_def split: sum.splits prod.splits)
  note part = groups_partition [OF g]
  show "distinct (map fst groups)" by (rule part(1))
  show "fst ` set groups = record_key ` set B" by (rule part(2))
  show "map_of groups k = (if group_of B k = [] then None else Some (group_of B k))"
    by (rule part(3))
  have tg: "map_of idx k = target A k" for k by (rule legistar_by_key_target [OF ix])
  have p3: "i < length A \<and> legistar_key (A ! i) = k" if "map_of idx k = Some i" for k i
    using target_SomeD [of A k i] that by (simp add: tg indexed_as_def)
  note r = match_groups_result [OF m part(1), of "\<lambda>i. legistar_key (A ! i)", OF p3]
  show "un = filter (\<lambda>k. target A k = None) (map fst groups)"
    using r by (simp add: tg)
  show "items = map (correlated_item A B) [0..<length A]"
  proof (rule nth_equalityI)
    show "length items = length (map (correlated_item A B) [0..<length A])" using r by simp
  next
    fix i assume "i < length items"
    then have i: "i < length A" using r by simp
    then show "items ! i = map (correlated_item A B) [0..<length A] ! i"
      using r by (simp add: part(3) tg correlated_item_def Let_def)
  qed
qed

lemma sort_mset_cong: "mset xs = mset ys \<Longrightarrow> sort xs = sort ys"
  by (metis properties_for_sort sorted_sort mset_sort)

lemma unmatched_mset:
  assumes "correlate_sources A B = Inr (groups, items, un)"
  shows "mset un = mset (unmatched_keys A B)"
proof -
  note s = correlate_sources_spec [OF assms]
  have "set (map fst groups) = set (remdups (map record_key B))"
    using s(4) by simp
  moreover have "distinct (remdups (map record_key B))" by simp
  ultimately have "mset (map fst groups) = mset (remdups (map record_key B))"
    using s(3) set_eq_iff_mset_eq_distinct by blast
  then show ?thesis unfolding s(2) unmatched_keys_def by (simp only: mset_filter)
qed

lemma new_items_spec:
  assumes "correlate_sources A B = Inr (groups, items, un)" and "mset keys = mset un"
  shows "new_items w groups keys = Inr (map (synthesized_item w B) keys)"
proof -
  note s = correlate_sources_spec [OF assms(1)]
  have sub: "set keys \<subseteq> fst ` set groups"
    using assms(2) s(2) by (metis (no_types, lifting) filter_is_subset mset_eq_setD set_map)
  have some: "map_of groups k = Some (group_of B k) \<and> group_of B k \<noteq> []" if "k \<in> set keys" for k
  proof -
    from that sub have "k \<in> fst ` set groups" by blast
    then have "map_of groups k \<noteq> None" by (simp add: map_of_eq_None_iff)
    then show ?thesis using s(5) [of k] by (auto split: if_splits)
  qed
  have "list_all (\<lambda>k. \<exists>r rs. map_of groups k = Some (r # rs)) keys"
    unfolding list_all_iff
  proof
    fix k assume "k \<in> set keys"
    from some [OF this] show "\<exists>r rs. map_of groups k = Some (r # rs)"
      by (cases "group_of B k") auto
  qed
  from new_items_map [OF this, of w]
  show ?thesis using some by (simp add: synthesized_item_def cong: map_cong)
qed

lemma phase3_correlate_iter_spec:
  assumes "\<And>xs. mset (h xs) = mset xs"
  shows "phase3_correlate_iter h w A B =
     (if B = [] then Inr A
      else case correlate_sources A B of
        Inl e \<Rightarrow> Inl e
      | Inr x \<Rightarrow> Inr (sort_key item_sort_key
                       (map (correlated_item A B) [0..<length A] @
                        map (synthesized_item w B) (sort (unmatched_keys A B)))))"
proof (cases "B = []")
  case True
  then show ?thesis by (simp add: phase3_correlate_iter_def)
next
  case False
  show ?thesis
  proof (cases "correlate_sources A B")
    case (Inl e)
    then show ?thesis using False by (simp add: phase3_correlate_iter_def)
  next
    case (Inr x)
    obtain groups items un where x: "x = (groups, items, un)" by (cases x)
    note cs = Inr [unfolded x]
    have "mset (h un) = mset (unmatched_keys A B)"
      using assms unmatched_mset [OF cs] by simp
    then have ks: "sort (h un) = sort (unmatched_keys A B)" by (rule sort_mset_cong)
    have "mset (sort (unmatched_keys A B)) = mset un"
      using unmatched_mset [OF cs] by simp
    from new_items_spec [OF cs this, of w] correlate_sources_spec(1) [OF cs]
    show ?thesis using False Inr by (simp add: phase3_correlate_iter_def x ks)
  qed
qed

lemma normalize_error: "normalize_agenda_number raw = Inl e \<Longrightarrow> e = ValueError"
  by (auto simp: normalize_agenda_number_def Let_def int_of_digits_def split: if_splits)

lemma socrata_by_key_error: "socrata_by_key rs d = Inl e \<Longrightarrow> e = ValueError"
  by (induction rs arbitrary: d) (auto simp: Let_def split: sum.splits dest: normalize_error)

lemma legistar_by_key_error: "legistar_by_key its i d = Inl e \<Longrightarrow> e = ValueError"
  by (induction its arbitrary: i d) (auto simp: Let_def split: sum.splits if_splits dest: normalize_error)




lemma correlate_sources_error: "correlate_sources A B = Inl e \<Longrightarrow> e = ValueError"
  by (auto simp: correlate_sources_def Let_def split: sum.splits prod.splits
      dest: socrata_by_key_error legistar_by_key_error)








section \<open>Verification: determinism\<close>

lemma sorted_sort_key_desc: "sorted (rev (map k (sort_key_desc k xs)))"
  by (simp add: sort_key_desc_def rev_map)

lemma load_sorted:
  assumes "load_all_csv_data b rows = Inr b'"
  shows "sorted (rev (map meeting_date (meetings b')))"
    and "list_all (\<lambda>m. sorted (map agenda_sequence (agenda_items m))) (meetings b')"
    and "sorted (rev (map (\<lambda>v. (vote_record.meeting_date v, item_number v)) (votes b')))"
proof -
  obtain st where st: "process_rows \<lparr>self = b, meetings_by_key = [], seen_items = {}\<rparr> rows = Inr st"
    and b': "b' = (self st)
                  \<lparr>meetings := sort_key_desc meeting_date
                     (map (\<lambda>m. m\<lparr>agenda_items := sort_key agenda_sequence (agenda_items m)\<rparr>)
                      (map snd (meetings_by_key st))),
                   votes := sort_key_desc (\<lambda>v. (vote_record.meeting_date v, item_number v))
                              (votes (self st))\<rparr>"
    using assms by (auto simp: load_all_csv_data_def Let_def split: sum.splits)
  show "sorted (rev (map meeting_date (meetings b')))"
    unfolding b' by (simp add: sorted_sort_key_desc)
  show "sorted (rev (map (\<lambda>v. (vote_record.meeting_date v, item_number v)) (votes b')))"
    unfolding b' by (simp add: sorted_sort_key_desc)
  show "list_all (\<lambda>m. sorted (map agenda_sequence (agenda_items m))) (meetings b')"
    unfolding b' by (auto simp: list_all_iff sort_key_desc_def)
qed

text \<open>
  Claim C8: the output does not depend on the order in which the hash set of unmatched
  keys is iterated, the only order that the program does not fix: any two iteration
  orders give the same result. The output of the correlator is sorted by its key, and
  items with equal keys keep the order of the list before the sort; the loader's
  meetings and votes are sorted in descending order, the agenda items of a meeting in
  ascending order of their sequence number.
\<close>

theorem correlation_deterministic:
  assumes "\<And>xs. mset (h1 xs) = mset xs" and "\<And>xs. mset (h2 xs) = mset xs"
  shows "phase3_correlate_iter h1 w A B = phase3_correlate_iter h2 w A B \<and>
         (B \<noteq> [] \<and> phase3_correlate_iter h1 w A B = Inr out \<longrightarrow>
            sorted (map item_sort_key out) \<and>
            filter (\<lambda>x. item_sort_key x = c) out =
              filter (\<lambda>x. item_sort_key x = c)
                (map (correlated_item A B) [0..<length A] @
                 map (synthesized_item w B) (sort (unmatched_keys A B)))) \<and>
         (load_all_csv_data b rows = Inr b' \<longrightarrow>
            sorted (rev (map meeting_date (meetings b'))) \<and>
            list_all (\<lambda>m. sorted (map agenda_sequence (agenda_items m))) (meetings b') \<and>
            sorted (rev (map (\<lambda>v. (vote_record.meeting_date v, item_number v)) (votes b'))))"
proof -
  note s1 = phase3_correlate_iter_spec [of h1 w A B, OF assms(1)]
  note s2 = phase3_correlate_iter_spec [of h2 w A B, OF assms(2)]
  have eq: "phase3_correlate_iter h1 w A B = phase3_correlate_iter h2 w A B"
    by (simp only: s1 s2)
  have srt: "sorted (map item_sort_key out) \<and>
            filter (\<lambda>x. item_sort_key x = c) out =
              filter (\<lambda>x. item_sort_key x = c)
                (map (correlated_item A B) [0..<length A] @
                 map (synthesized_item w B) (sort (unmatched_keys A B)))"
    if "B \<noteq> []" "phase3_correlate_iter h1 w A B = Inr out"
  proof -
    have "out = sort_key item_sort_key
                    (map (correlated_item A B) [0..<length A] @
                     map (synthesized_item w B) (sort (unmatched_keys A B)))"
      using that s1 by (auto split: sum.splits)
    then show ?thesis by (simp only: sorted_sort_key sort_key_stable simp_thms)
  qed
  from eq srt load_sorted [of b rows b'] show ?thesis by blast
qed

text \<open>
  Witness for C8: the example, with the set iterated in the order of insertion and in
  the reverse order.
\<close>

theorem correlation_deterministic_witness:
  "phase3_correlate_iter (\<lambda>keys. keys) example_workflow example_items example_records =
     phase3_correlate_iter rev example_workflow example_items example_records \<and>
   (\<exists>out. phase3_correlate_iter (\<lambda>keys. keys) example_workflow example_items example_records
            = Inr out \<and>
          map item_sort_key out =
            [(''2025-10-15'', 0, ''7''), (''2025-10-15'', 1, []), (''2025-10-15'', 3, ''12'')] \<and>
          sorted (map item_sort_key out)) \<and>
   (\<exists>b'. load_all_csv_data example_builder example_rows = Inr b' \<and>
         map item_number (votes b') = [''3'', ''2'', ''1''] \<and>
         sorted (rev (map (\<lambda>v. (vote_record.meeting_date v, item_number v)) (votes b'))))"
proof -
  have h1: "mset xs = mset xs" for xs :: "key list" by simp
  have h2: "mset (rev xs) = mset xs" for xs :: "key list" by simp
  have ne: "example_records \<noteq> []" by code_simp
  have "case phase3_correlate_iter (\<lambda>keys. keys) example_workflow example_items example_records of
          Inl e \<Rightarrow> False
        | Inr out \<Rightarrow> map item_sort_key out =
            [(''2025-10-15'', 0, ''7''), (''2025-10-15'', 1, []), (''2025-10-15'', 3, ''12'')]"
    by code_simp
  then obtain out where
    o: "phase3_correlate_iter (\<lambda>keys. keys) example_workflow example_items example_records = Inr out"
    and k: "map item_sort_key out =
            [(''2025-10-15'', 0, ''7''), (''2025-10-15'', 1, []), (''2025-10-15'', 3, ''12'')]"
    by (auto split: sum.splits)
  have "case load_all_csv_data example_builder example_rows of
          Inl e \<Rightarrow> False
        | Inr b' \<Rightarrow> map item_number (votes b') = [''3'', ''2'', ''1'']"
    by code_simp
  then obtain b' where l: "load_all_csv_data example_builder example_rows = Inr b'"
    and n: "map item_number (votes b') = [''3'', ''2'', ''1'']"
    by (auto split: sum.splits)
  from correlation_deterministic [where ?h1.0 = "\<lambda>keys. keys" and ?h2.0 = rev
      and w = example_workflow and A = example_items and B = example_records and out = out
      and b = example_builder and rows = example_rows and b' = b', OF h1 h2] ne o l
  have "phase3_correlate_iter (\<lambda>keys. keys) example_workflow example_items example_records =
          phase3_correlate_iter rev example_workflow example_items example_records"
    and "sorted (map item_sort_key out)"
    and "sorted (rev (map (\<lambda>v. (vote_record.meeting_date v, item_number v)) (votes b')))"
    by blast+
  then have e: "phase3_correlate_iter (\<lambda>keys. keys) example_workflow example_items example_records =
          phase3_correlate_iter rev example_workflow example_items example_records"
    and s: "sorted (map item_sort_key out)"
    and v: "sorted (rev (map (\<lambda>v. (vote_record.meeting_date v, item_number v)) (votes b')))"
    by simp_all
  from o k s have p: "\<exists>out. phase3_correlate_iter (\<lambda>keys. keys) example_workflow example_items
            example_records = Inr out \<and>
          map item_sort_key out =
            [(''2025-10-15'', 0, ''7''), (''2025-10-15'', 1, []), (''2025-10-15'', 3, ''12'')] \<and>
          sorted (map item_sort_key out)"
    by (intro exI [of _ out] conjI)
  from l n v have q: "\<exists>b'. load_all_csv_data example_builder example_rows = Inr b' \<and>
         map item_number (votes b') = [''3'', ''2'', ''1''] \<and>
         sorted (rev (map (\<lambda>v. (vote_record.meeting_date v, item_number v)) (votes b')))"
    by (intro exI [of _ b'] conjI)
  from e p q show ?thesis by (intro conjI)
qed

end
